theory Spec2Isabelle
  imports Main
begin

section \<open>X402InsuranceV8: pool accounting and settlement\<close>

text \<open>
  A shallow embedding of the contract \<^verbatim>\<open>X402InsuranceV8\<close>. Addresses, claim
  commitments and \<^verbatim>\<open>uint256\<close> values are natural numbers. The contract is compiled
  with Solidity 0.8, whose arithmetic is checked: an addition or multiplication whose
  result exceeds \<open>2^256 - 1\<close>, and a subtraction below zero, abort the call. Each such
  abort is the value \<open>Inl Panic\<close>; a failed \<^verbatim>\<open>require\<close> is \<open>Inl (Revert msg)\<close>. An
  aborted call leaves the storage as it was, so the operations return either an error or
  the new storage. Events are not modelled. The token is an external contract: what its
  \<^verbatim>\<open>transfer\<close> and \<^verbatim>\<open>transferFrom\<close> return is an input of the call (part of
  \<open>env\<close>), and the calls that succeeded are appended to \<open>token_log\<close>.
\<close>

type_synonym address = nat
type_synonym bytes32 = nat

datatype error = Revert string | Panic

definition MAX_UINT256 :: nat where
  "MAX_UINT256 = 2 ^ 256 - 1"

definition MIN_POOL_BALANCE :: nat where
  "MIN_POOL_BALANCE = 10 * 10 ^ 6"

definition MAX_POOL_BALANCE :: nat where
  "MAX_POOL_BALANCE = 1000000 * 10 ^ 6"

definition MIN_CLAIM_AMOUNT :: nat where
  "MIN_CLAIM_AMOUNT = 1 * 10 ^ 5"

definition MAX_CLAIM_AMOUNT :: nat where
  "MAX_CLAIM_AMOUNT = 10000 * 10 ^ 6"

definition PENALTY_RATE :: nat where
  "PENALTY_RATE = 1000"

definition PLATFORM_FEE_RATE :: nat where
  "PLATFORM_FEE_RATE = 100"

definition MAX_EXPOSURE_RATIO :: nat where
  "MAX_EXPOSURE_RATIO = 8000"

datatype ClaimStatus = INITIATED | DISPUTED | EXECUTED | REJECTED | PARTIAL

datatype ClaimReason = NOT_DELIVERED | SERVICE_TIMEOUT | PARTIAL_DELIVERY

record ProviderData =
  isActive :: bool
  poolBalance :: nat
  totalLocked :: nat
  successfulServices :: nat
  failedServices :: nat
  tier :: nat
  registeredAt :: nat

record ClaimInfo =
  client :: address
  provider :: address
  requestedAmount :: nat
  paidAmount :: nat
  pendingAmount :: nat
  initiatedAt :: nat
  disputeDeadline :: nat
  reason :: ClaimReason
  status :: ClaimStatus

text \<open>The fields \<^verbatim>\<open>commitment\<close> and \<^verbatim>\<open>client\<close> of the struct
  \<^verbatim>\<open>PendingCompensation\<close> carry the prefix \<open>comp_\<close> here, since \<open>client\<close> is
  already a field of \<open>ClaimInfo\<close>.\<close>

record PendingCompensation =
  comp_commitment :: bytes32
  comp_client :: address
  amount :: nat
  createdAt :: nat
  isPaid :: bool

datatype token_call = TransferFrom address nat | Transfer address nat

record state =
  providers :: "address \<Rightarrow> ProviderData"
  claims :: "bytes32 \<Rightarrow> ClaimInfo"
  providerPendingCompensations :: "address \<Rightarrow> bytes32 list"
  pendingCompensations :: "bytes32 \<Rightarrow> PendingCompensation"
  totalProviderPools :: nat
  emergencyPool :: nat
  platformInsuranceFund :: nat
  totalClaimsInitiated :: nat
  totalClaimsExecuted :: nat
  totalPendingCompensations :: nat
  owner :: address
  token_log :: "token_call list"

record env =
  msg_sender :: address
  block_timestamp :: nat
  usdc_transferFrom :: "address \<Rightarrow> nat \<Rightarrow> bool"
  usdc_transfer :: "address \<Rightarrow> nat \<Rightarrow> bool"

text \<open>Storage after deployment by \<^verbatim>\<open>constructor(_usdcToken, _owner)\<close>: every mapping
  holds the zero value at every key. The constructor rejects a zero token address, and
  \<^verbatim>\<open>Ownable\<close> a zero owner; \<open>reachable\<close> below starts from a non-zero owner.\<close>

definition zeroProvider :: ProviderData where
  "zeroProvider = \<lparr>isActive = False, poolBalance = 0, totalLocked = 0,
     successfulServices = 0, failedServices = 0, tier = 0, registeredAt = 0\<rparr>"

definition zeroClaim :: ClaimInfo where
  "zeroClaim = \<lparr>client = 0, provider = 0, requestedAmount = 0, paidAmount = 0,
     pendingAmount = 0, initiatedAt = 0, disputeDeadline = 0, reason = NOT_DELIVERED,
     status = INITIATED\<rparr>"

definition zeroCompensation :: PendingCompensation where
  "zeroCompensation = \<lparr>comp_commitment = 0, comp_client = 0, amount = 0, createdAt = 0,
     isPaid = False\<rparr>"

definition init :: "address \<Rightarrow> state" where
  "init own = \<lparr>providers = (\<lambda>_. zeroProvider), claims = (\<lambda>_. zeroClaim),
     providerPendingCompensations = (\<lambda>_. []),
     pendingCompensations = (\<lambda>_. zeroCompensation),
     totalProviderPools = 0, emergencyPool = 0, platformInsuranceFund = 0,
     totalClaimsInitiated = 0, totalClaimsExecuted = 0, totalPendingCompensations = 0,
     owner = own, token_log = []\<rparr>"

subsection \<open>Internal functions\<close>

definition getDisputePeriod :: "nat \<Rightarrow> nat" where
  "getDisputePeriod amt =
     (if amt \<le> 10 * 10 ^ 6 then 60
      else if amt \<le> 100 * 10 ^ 6 then 300
      else if amt \<le> 1000 * 10 ^ 6 then 900
      else 1800)"

definition recordPendingCompensation ::
  "env \<Rightarrow> bytes32 \<Rightarrow> address \<Rightarrow> address \<Rightarrow> nat \<Rightarrow> state \<Rightarrow> error + state" where
  "recordPendingCompensation e cm cl prov amt s =
     (if totalPendingCompensations s + amt > MAX_UINT256 then Inl Panic
      else Inr (s\<lparr>
        pendingCompensations := (pendingCompensations s)(cm :=
          \<lparr>comp_commitment = cm, comp_client = cl, amount = amt,
           createdAt = block_timestamp e, isPaid = False\<rparr>),
        providerPendingCompensations := (providerPendingCompensations s)(prov :=
          providerPendingCompensations s prov @ [cm]),
        totalPendingCompensations := totalPendingCompensations s + amt\<rparr>))"

text \<open>First loop of \<^verbatim>\<open>_processProportionalCompensations\<close>: the total of the entries
  that are neither paid nor empty, and their number.\<close>

fun sumPending :: "state \<Rightarrow> bytes32 list \<Rightarrow> nat \<Rightarrow> nat \<Rightarrow> error + (nat \<times> nat)" where
  "sumPending s [] totalPending validCount = Inr (totalPending, validCount)"
| "sumPending s (cm # cms) totalPending validCount =
     (let comp = pendingCompensations s cm in
      if \<not> isPaid comp \<and> amount comp > 0 then
        (if totalPending + amount comp > MAX_UINT256 then Inl Panic
         else if validCount + 1 > MAX_UINT256 then Inl Panic
         else sumPending s cms (totalPending + amount comp) (validCount + 1))
      else sumPending s cms totalPending validCount)"

text \<open>One iteration of the second loop: the share of one entry is paid out of the
  provider's pool. The accumulator holds the storage and the two local counters
  \<^verbatim>\<open>totalCompensated\<close> and \<^verbatim>\<open>claimsProcessed\<close>.\<close>

definition payOne ::
  "env \<Rightarrow> address \<Rightarrow> nat \<Rightarrow> nat \<Rightarrow> bytes32 \<Rightarrow> state \<times> nat \<times> nat
     \<Rightarrow> error + (state \<times> nat \<times> nat)" where
  "payOne e prov availableFunds totalPending cm acc =
     (case acc of (s, totalCompensated, claimsProcessed) \<Rightarrow>
      let comp = pendingCompensations s cm;
          claim = claims s cm;
          providerData = providers s prov
      in
      if \<not> isPaid comp \<and> amount comp > 0 then
        (if availableFunds * amount comp > MAX_UINT256 then Inl Panic
         else if totalPending = 0 then Inl Panic
         else
           let p0 = (availableFunds * amount comp) div totalPending;
               proportionalPayment = (if p0 > amount comp then amount comp else p0)
           in
           if proportionalPayment > 0 then
             (if amount comp < proportionalPayment then Inl Panic
              else if paidAmount claim + proportionalPayment > MAX_UINT256 then Inl Panic
              else if pendingAmount claim < proportionalPayment then Inl Panic
              else if poolBalance providerData < proportionalPayment then Inl Panic
              else if totalProviderPools s < proportionalPayment then Inl Panic
              else if \<not> usdc_transfer e (client claim) proportionalPayment
                then Inl (Revert ''Compensation transfer failed'')
              else if totalCompensated + proportionalPayment > MAX_UINT256 then Inl Panic
              else if claimsProcessed + 1 > MAX_UINT256 then Inl Panic
              else if totalPendingCompensations s < proportionalPayment then Inl Panic
              else Inr (s\<lparr>
                pendingCompensations := (pendingCompensations s)(cm :=
                  comp\<lparr>amount := amount comp - proportionalPayment,
                       isPaid := (if amount comp - proportionalPayment = 0 then True
                                  else isPaid comp)\<rparr>),
                claims := (claims s)(cm :=
                  claim\<lparr>paidAmount := paidAmount claim + proportionalPayment,
                        pendingAmount := pendingAmount claim - proportionalPayment\<rparr>),
                providers := (providers s)(prov :=
                  providerData\<lparr>poolBalance := poolBalance providerData - proportionalPayment\<rparr>),
                totalProviderPools := totalProviderPools s - proportionalPayment,
                totalPendingCompensations := totalPendingCompensations s - proportionalPayment,
                token_log := token_log s @ [Transfer (client claim) proportionalPayment]\<rparr>,
                totalCompensated + proportionalPayment, claimsProcessed + 1))
           else Inr acc)
      else Inr acc)"

fun payLoop ::
  "env \<Rightarrow> address \<Rightarrow> nat \<Rightarrow> nat \<Rightarrow> bytes32 list \<Rightarrow> state \<times> nat \<times> nat
     \<Rightarrow> error + (state \<times> nat \<times> nat)" where
  "payLoop e prov availableFunds totalPending [] acc = Inr acc"
| "payLoop e prov availableFunds totalPending (cm # cms) acc =
     (case payOne e prov availableFunds totalPending cm acc of
        Inl err \<Rightarrow> Inl err
      | Inr acc' \<Rightarrow> payLoop e prov availableFunds totalPending cms acc')"

text \<open>Third loop: the entries that are not paid are moved to the front of the array, in
  place; \<open>compactLoop\<close> returns the write index and the array.\<close>

function compactLoop :: "state \<Rightarrow> nat \<Rightarrow> nat \<Rightarrow> bytes32 list \<Rightarrow> nat \<times> bytes32 list" where
  "compactLoop s i writeIndex commitments =
     (if i < length commitments then
        (if \<not> isPaid (pendingCompensations s (commitments ! i)) then
           compactLoop s (i + 1) (writeIndex + 1)
             (if i \<noteq> writeIndex then commitments[writeIndex := commitments ! i]
              else commitments)
         else compactLoop s (i + 1) writeIndex commitments)
      else (writeIndex, commitments))"
  by pat_completeness auto
termination
  by (relation "measure (\<lambda>(s, i, w, cms). length cms - i)") auto

declare compactLoop.simps [simp del]

text \<open>The closing \<^verbatim>\<open>while (commitments.length > writeIndex) commitments.pop()\<close>.\<close>

function popLoop :: "nat \<Rightarrow> bytes32 list \<Rightarrow> bytes32 list" where
  "popLoop writeIndex commitments =
     (if length commitments > writeIndex then popLoop writeIndex (butlast commitments)
      else commitments)"
  by pat_completeness auto
termination
  by (relation "measure (\<lambda>(w, cms). length cms)") auto

declare popLoop.simps [simp del]

definition processProportionalCompensations :: "env \<Rightarrow> address \<Rightarrow> state \<Rightarrow> error + state" where
  "processProportionalCompensations e prov s =
     (let commitments = providerPendingCompensations s prov in
      if length commitments = 0 then Inr s
      else
        let providerData = providers s prov;
            availableFunds = (if poolBalance providerData > totalLocked providerData
                              then poolBalance providerData - totalLocked providerData else 0)
        in
        if availableFunds = 0 then Inr s
        else
          (case sumPending s commitments 0 0 of
             Inl err \<Rightarrow> Inl err
           | Inr (totalPending, validCount) \<Rightarrow>
               if totalPending = 0 then Inr s
               else
                 (case payLoop e prov availableFunds totalPending commitments (s, 0, 0) of
                    Inl err \<Rightarrow> Inl err
                  | Inr (s1, totalCompensated, claimsProcessed) \<Rightarrow>
                      (case compactLoop s1 0 0 commitments of
                         (writeIndex, commitments1) \<Rightarrow>
                           Inr (s1\<lparr>providerPendingCompensations :=
                                  (providerPendingCompensations s1)(prov :=
                                     popLoop writeIndex commitments1)\<rparr>)))))"

subsection \<open>Provider functions\<close>

definition registerOrReactivate :: "env \<Rightarrow> nat \<Rightarrow> state \<Rightarrow> error + state" where
  "registerOrReactivate e amt s =
     (if \<not> amt \<ge> MIN_POOL_BALANCE then Inl (Revert ''Insufficient initial deposit'')
      else if \<not> amt \<le> MAX_POOL_BALANCE then Inl (Revert ''Exceeds maximum pool balance'')
      else
        let pd0 = providers s (msg_sender e);
            pd = (if registeredAt pd0 = 0
                  then pd0\<lparr>tier := 1, registeredAt := block_timestamp e\<rparr> else pd0)
        in
        if \<not> usdc_transferFrom e (msg_sender e) amt then Inl (Revert ''Transfer failed'')
        else if poolBalance pd + amt > MAX_UINT256 then Inl Panic
        else if totalProviderPools s + amt > MAX_UINT256 then Inl Panic
        else
          let s1 = s\<lparr>
                providers := (providers s)(msg_sender e :=
                  pd\<lparr>isActive := True, poolBalance := poolBalance pd + amt\<rparr>),
                totalProviderPools := totalProviderPools s + amt,
                token_log := token_log s @ [TransferFrom (msg_sender e) amt]\<rparr>
          in
          if length (providerPendingCompensations s1 (msg_sender e)) > 0
          then processProportionalCompensations e (msg_sender e) s1
          else Inr s1)"

definition depositAdditional :: "env \<Rightarrow> nat \<Rightarrow> state \<Rightarrow> error + state" where
  "depositAdditional e amt s =
     (let pd = providers s (msg_sender e) in
      if \<not> isActive pd then Inl (Revert ''Provider not active'')
      else if poolBalance pd + amt > MAX_UINT256 then Inl Panic
      else if \<not> poolBalance pd + amt \<le> MAX_POOL_BALANCE then Inl (Revert ''Exceeds maximum'')
      else if \<not> usdc_transferFrom e (msg_sender e) amt then Inl (Revert ''Transfer failed'')
      else if totalProviderPools s + amt > MAX_UINT256 then Inl Panic
      else
        let s1 = s\<lparr>
              providers := (providers s)(msg_sender e :=
                pd\<lparr>poolBalance := poolBalance pd + amt\<rparr>),
              totalProviderPools := totalProviderPools s + amt,
              token_log := token_log s @ [TransferFrom (msg_sender e) amt]\<rparr>
        in
        if length (providerPendingCompensations s1 (msg_sender e)) > 0
        then processProportionalCompensations e (msg_sender e) s1
        else Inr s1)"

definition withdraw :: "env \<Rightarrow> nat \<Rightarrow> state \<Rightarrow> error + state" where
  "withdraw e amt s =
     (let pd = providers s (msg_sender e) in
      if \<not> isActive pd then Inl (Revert ''Provider not active'')
      else
        let available = (if poolBalance pd > totalLocked pd
                         then poolBalance pd - totalLocked pd else 0)
        in
        if \<not> amt \<le> available then Inl (Revert ''Insufficient available balance'')
        else if poolBalance pd < amt then Inl Panic
        else if \<not> poolBalance pd - amt \<ge> MIN_POOL_BALANCE
          then Inl (Revert ''Below minimum balance'')
        else if totalProviderPools s < amt then Inl Panic
        else if \<not> usdc_transfer e (msg_sender e) amt then Inl (Revert ''Transfer failed'')
        else Inr (s\<lparr>
          providers := (providers s)(msg_sender e := pd\<lparr>poolBalance := poolBalance pd - amt\<rparr>),
          totalProviderPools := totalProviderPools s - amt,
          token_log := token_log s @ [Transfer (msg_sender e) amt]\<rparr>))"

definition withdrawAllAndDeactivate :: "env \<Rightarrow> state \<Rightarrow> error + state" where
  "withdrawAllAndDeactivate e s =
     (let pd = providers s (msg_sender e) in
      if \<not> isActive pd then Inl (Revert ''Provider not active'')
      else if \<not> totalLocked pd = 0 then Inl (Revert ''Has active claims'')
      else
        let amt = poolBalance pd in
        if totalProviderPools s < amt then Inl Panic
        else if amt > 0 \<and> \<not> usdc_transfer e (msg_sender e) amt
          then Inl (Revert ''Transfer failed'')
        else Inr (s\<lparr>
          providers := (providers s)(msg_sender e := pd\<lparr>isActive := False, poolBalance := 0\<rparr>),
          totalProviderPools := totalProviderPools s - amt,
          token_log := (if amt > 0 then token_log s @ [Transfer (msg_sender e) amt]
                        else token_log s)\<rparr>))"

subsection \<open>Claim functions\<close>

definition initiateClaim ::
  "env \<Rightarrow> bytes32 \<Rightarrow> address \<Rightarrow> nat \<Rightarrow> ClaimReason \<Rightarrow> state \<Rightarrow> error + state" where
  "initiateClaim e cm prov amt rsn s =
     (if \<not> (amt \<ge> MIN_CLAIM_AMOUNT \<and> amt \<le> MAX_CLAIM_AMOUNT) then Inl (Revert ''Invalid amount'')
      else if \<not> initiatedAt (claims s cm) = 0 then Inl (Revert ''Claim already exists'')
      else if \<not> isActive (providers s prov) then Inl (Revert ''Provider not active'')
      else if amt * PENALTY_RATE > MAX_UINT256 \<or> amt * PLATFORM_FEE_RATE > MAX_UINT256
        then Inl Panic
      else
        let penaltyAmount = (amt * PENALTY_RATE) div 10000;
            platformFee = (amt * PLATFORM_FEE_RATE) div 10000
        in
        if amt + penaltyAmount + platformFee > MAX_UINT256 then Inl Panic
        else
          let totalRequired = amt + penaltyAmount + platformFee;
              providerData = providers s prov;
              providerAvailable = (if poolBalance providerData > totalLocked providerData
                                   then poolBalance providerData - totalLocked providerData
                                   else 0)
          in
          if providerAvailable + emergencyPool s + platformInsuranceFund s > MAX_UINT256
          then Inl Panic
          else
            let totalAvailable = providerAvailable + emergencyPool s + platformInsuranceFund s;
                actualPaidAmount = (if totalAvailable \<ge> amt then amt
                                    else if totalAvailable > 0 then totalAvailable else 0);
                pending = (if totalAvailable \<ge> amt then 0
                           else if totalAvailable > 0 then amt - totalAvailable else amt);
                claimStatus = (if totalAvailable \<ge> amt then INITIATED else PARTIAL)
            in
            (case (if totalAvailable \<ge> amt then Inr s
                   else recordPendingCompensation e cm (msg_sender e) prov pending s) of
               Inl err \<Rightarrow> Inl err
             | Inr s1 \<Rightarrow>
                 if actualPaidAmount * PENALTY_RATE > MAX_UINT256
                    \<or> actualPaidAmount * PLATFORM_FEE_RATE > MAX_UINT256 then Inl Panic
                 else if actualPaidAmount + (actualPaidAmount * PENALTY_RATE) div 10000
                         + (actualPaidAmount * PLATFORM_FEE_RATE) div 10000 > MAX_UINT256
                   then Inl Panic
                 else
                   let actualTotalRequired = actualPaidAmount
                         + (actualPaidAmount * PENALTY_RATE) div 10000
                         + (actualPaidAmount * PLATFORM_FEE_RATE) div 10000;
                       fromProvider = (if actualTotalRequired \<le> providerAvailable
                                       then actualTotalRequired else providerAvailable);
                       locked = (if actualPaidAmount > 0
                                 then totalLocked providerData + fromProvider
                                 else totalLocked providerData)
                   in
                   if actualPaidAmount > 0 \<and> locked > MAX_UINT256 then Inl Panic
                   else if block_timestamp e + getDisputePeriod amt > MAX_UINT256 then Inl Panic
                   else if totalClaimsInitiated s1 + 1 > MAX_UINT256 then Inl Panic
                   else Inr (s1\<lparr>
                     providers := (providers s1)(prov := providerData\<lparr>totalLocked := locked\<rparr>),
                     claims := (claims s1)(cm :=
                       \<lparr>client = msg_sender e, provider = prov, requestedAmount = amt,
                        paidAmount = actualPaidAmount, pendingAmount = pending,
                        initiatedAt = block_timestamp e,
                        disputeDeadline = block_timestamp e + getDisputePeriod amt,
                        reason = rsn, status = claimStatus\<rparr>),
                     totalClaimsInitiated := totalClaimsInitiated s1 + 1\<rparr>)))"

definition executeClaim :: "env \<Rightarrow> bytes32 \<Rightarrow> state \<Rightarrow> error + state" where
  "executeClaim e cm s =
     (let claim = claims s cm in
      if \<not> initiatedAt claim > 0 then Inl (Revert ''Claim not found'')
      else if \<not> (status claim = INITIATED \<or> status claim = PARTIAL)
        then Inl (Revert ''Invalid claim status'')
      else if \<not> block_timestamp e > disputeDeadline claim
        then Inl (Revert ''Still in dispute period'')
      else
        let prov = provider claim;
            providerData = providers s prov;
            actualPaidAmount = paidAmount claim
        in
        (case
           (if actualPaidAmount > 0 then
              (if actualPaidAmount * PENALTY_RATE > MAX_UINT256
                  \<or> actualPaidAmount * PLATFORM_FEE_RATE > MAX_UINT256 then Inl Panic
               else
                 let penaltyAmount = (actualPaidAmount * PENALTY_RATE) div 10000;
                     platformFee = (actualPaidAmount * PLATFORM_FEE_RATE) div 10000
                 in
                 if actualPaidAmount + penaltyAmount + platformFee > MAX_UINT256 then Inl Panic
                 else
                   let totalRequired = actualPaidAmount + penaltyAmount + platformFee;
                       fromProvider = (if totalRequired \<le> poolBalance providerData
                                       then totalRequired else poolBalance providerData)
                   in
                   if fromProvider > 0 \<and> totalProviderPools s < fromProvider then Inl Panic
                   else
                     let providerData1 =
                           (if fromProvider > 0 then
                              providerData\<lparr>
                                poolBalance := poolBalance providerData - fromProvider,
                                totalLocked := totalLocked providerData -
                                  (if fromProvider \<le> totalLocked providerData
                                   then fromProvider else totalLocked providerData)\<rparr>
                            else providerData);
                         pools1 = (if fromProvider > 0 then totalProviderPools s - fromProvider
                                   else totalProviderPools s);
                         fromEmergency = totalRequired - fromProvider
                     in
                     if fromProvider < totalRequired \<and> \<not> fromEmergency \<le> emergencyPool s
                        \<and> platformInsuranceFund s < fromEmergency - emergencyPool s
                     then Inl Panic
                     else
                       let emergency1 =
                             (if fromProvider < totalRequired then
                                (if fromEmergency \<le> emergencyPool s
                                 then emergencyPool s - fromEmergency else 0)
                              else emergencyPool s);
                           platform1 =
                             (if fromProvider < totalRequired then
                                (if fromEmergency \<le> emergencyPool s
                                 then platformInsuranceFund s
                                 else platformInsuranceFund s - (fromEmergency - emergencyPool s))
                              else platformInsuranceFund s)
                       in
                       if emergency1 + penaltyAmount div 2 > MAX_UINT256 then Inl Panic
                       else if penaltyAmount div 2 + platformFee > MAX_UINT256 then Inl Panic
                       else if platform1 + (penaltyAmount div 2 + platformFee) > MAX_UINT256
                         then Inl Panic
                       else if \<not> usdc_transfer e (client claim) actualPaidAmount
                         then Inl (Revert ''Transfer failed'')
                       else Inr (s\<lparr>
                         providers := (providers s)(prov := providerData1),
                         totalProviderPools := pools1,
                         emergencyPool := emergency1 + penaltyAmount div 2,
                         platformInsuranceFund := platform1 + (penaltyAmount div 2 + platformFee),
                         token_log := token_log s @ [Transfer (client claim) actualPaidAmount]\<rparr>))
            else Inr s) of
           Inl err \<Rightarrow> Inl err
         | Inr s1 \<Rightarrow>
             if pendingAmount claim = 0 \<and> successfulServices (providers s1 prov) + 1 > MAX_UINT256
               then Inl Panic
             else if totalClaimsExecuted s1 + 1 > MAX_UINT256 then Inl Panic
             else Inr (s1\<lparr>
               claims := (claims s1)(cm :=
                 claim\<lparr>status := (if pendingAmount claim = 0 then EXECUTED else PARTIAL)\<rparr>),
               providers :=
                 (if pendingAmount claim = 0 then
                    (providers s1)(prov := (providers s1 prov)\<lparr>
                       successfulServices := successfulServices (providers s1 prov) + 1\<rparr>)
                  else providers s1),
               totalClaimsExecuted := totalClaimsExecuted s1 + 1\<rparr>)))"

definition disputeClaim :: "env \<Rightarrow> bytes32 \<Rightarrow> string \<Rightarrow> state \<Rightarrow> error + state" where
  "disputeClaim e cm evidence s =
     (let claim = claims s cm in
      if \<not> initiatedAt claim > 0 then Inl (Revert ''Claim not found'')
      else if \<not> provider claim = msg_sender e then Inl (Revert ''Not the provider'')
      else if \<not> (status claim = INITIATED \<or> status claim = PARTIAL)
        then Inl (Revert ''Cannot dispute'')
      else if \<not> block_timestamp e \<le> disputeDeadline claim
        then Inl (Revert ''Dispute period ended'')
      else
        let s1 = s\<lparr>claims := (claims s)(cm := claim\<lparr>status := DISPUTED\<rparr>)\<rparr> in
        if paidAmount claim > 0 then
          (let providerData = providers s1 (msg_sender e) in
           if paidAmount claim * PENALTY_RATE > MAX_UINT256
              \<or> paidAmount claim * PLATFORM_FEE_RATE > MAX_UINT256 then Inl Panic
           else if paidAmount claim + (paidAmount claim * PENALTY_RATE) div 10000
                   + (paidAmount claim * PLATFORM_FEE_RATE) div 10000 > MAX_UINT256
             then Inl Panic
           else
             let lockedAmount = paidAmount claim
                   + (paidAmount claim * PENALTY_RATE) div 10000
                   + (paidAmount claim * PLATFORM_FEE_RATE) div 10000
             in
             Inr (s1\<lparr>providers := (providers s1)(msg_sender e :=
                    providerData\<lparr>totalLocked :=
                      (if lockedAmount \<le> totalLocked providerData
                       then totalLocked providerData - lockedAmount else 0)\<rparr>)\<rparr>))
        else Inr s1)"

subsection \<open>Admin functions\<close>

definition fundEmergencyPool :: "env \<Rightarrow> nat \<Rightarrow> state \<Rightarrow> error + state" where
  "fundEmergencyPool e amt s =
     (if \<not> msg_sender e = owner s then Inl (Revert ''OwnableUnauthorizedAccount'')
      else if \<not> usdc_transferFrom e (msg_sender e) amt then Inl (Revert ''Transfer failed'')
      else if emergencyPool s + amt > MAX_UINT256 then Inl Panic
      else Inr (s\<lparr>emergencyPool := emergencyPool s + amt,
                  token_log := token_log s @ [TransferFrom (msg_sender e) amt]\<rparr>))"

definition fundPlatformInsurance :: "env \<Rightarrow> nat \<Rightarrow> state \<Rightarrow> error + state" where
  "fundPlatformInsurance e amt s =
     (if \<not> msg_sender e = owner s then Inl (Revert ''OwnableUnauthorizedAccount'')
      else if \<not> usdc_transferFrom e (msg_sender e) amt then Inl (Revert ''Transfer failed'')
      else if platformInsuranceFund s + amt > MAX_UINT256 then Inl Panic
      else Inr (s\<lparr>platformInsuranceFund := platformInsuranceFund s + amt,
                  token_log := token_log s @ [TransferFrom (msg_sender e) amt]\<rparr>))"

text \<open>The contract inherits \<^verbatim>\<open>transferOwnership\<close> and \<^verbatim>\<open>renounceOwnership\<close> from
  OpenZeppelin's \<^verbatim>\<open>Ownable\<close>; they write nothing but \<open>owner\<close>.\<close>

definition transferOwnership :: "env \<Rightarrow> address \<Rightarrow> state \<Rightarrow> error + state" where
  "transferOwnership e newOwner s =
     (if \<not> msg_sender e = owner s then Inl (Revert ''OwnableUnauthorizedAccount'')
      else if newOwner = 0 then Inl (Revert ''OwnableInvalidOwner'')
      else Inr (s\<lparr>owner := newOwner\<rparr>))"

definition renounceOwnership :: "env \<Rightarrow> state \<Rightarrow> error + state" where
  "renounceOwnership e s =
     (if \<not> msg_sender e = owner s then Inl (Revert ''OwnableUnauthorizedAccount'')
      else Inr (s\<lparr>owner := 0\<rparr>))"

subsection \<open>Calls and reachable storage\<close>

text \<open>The external functions that write storage, and the internal distribution, which
  \<open>registerOrReactivate\<close> and \<open>depositAdditional\<close> invoke; \<open>Distribute\<close> lets the
  invariants below speak about the storage right after a distribution as well.\<close>

datatype call =
    RegisterOrReactivate nat
  | DepositAdditional nat
  | Withdraw nat
  | WithdrawAllAndDeactivate
  | InitiateClaim bytes32 address nat ClaimReason
  | ExecuteClaim bytes32
  | DisputeClaim bytes32 string
  | FundEmergencyPool nat
  | FundPlatformInsurance nat
  | TransferOwnership address
  | RenounceOwnership
  | Distribute address

fun exec :: "env \<Rightarrow> call \<Rightarrow> state \<Rightarrow> error + state" where
  "exec e (RegisterOrReactivate amt) s = registerOrReactivate e amt s"
| "exec e (DepositAdditional amt) s = depositAdditional e amt s"
| "exec e (Withdraw amt) s = withdraw e amt s"
| "exec e WithdrawAllAndDeactivate s = withdrawAllAndDeactivate e s"
| "exec e (InitiateClaim cm prov amt rsn) s = initiateClaim e cm prov amt rsn s"
| "exec e (ExecuteClaim cm) s = executeClaim e cm s"
| "exec e (DisputeClaim cm evidence) s = disputeClaim e cm evidence s"
| "exec e (FundEmergencyPool amt) s = fundEmergencyPool e amt s"
| "exec e (FundPlatformInsurance amt) s = fundPlatformInsurance e amt s"
| "exec e (TransferOwnership newOwner) s = transferOwnership e newOwner s"
| "exec e RenounceOwnership s = renounceOwnership e s"
| "exec e (Distribute prov) s = processProportionalCompensations e prov s"

inductive reachable :: "state \<Rightarrow> bool" where
  reachable_init: "own \<noteq> 0 \<Longrightarrow> reachable (init own)"
| reachable_step: "reachable s \<Longrightarrow> exec e c s = Inr s' \<Longrightarrow> reachable s'"

text \<open>A sequence of calls, stopping at the first one that aborts.\<close>

fun run :: "(env \<times> call) list \<Rightarrow> state \<Rightarrow> error + state" where
  "run [] s = Inr s"
| "run ((e, c) # cs) s = (case exec e c s of Inl err \<Rightarrow> Inl err | Inr s' \<Rightarrow> run cs s')"

section \<open>Vocabulary of the properties\<close>

text \<open>The functions of the contract compute several quantities inline, more than once.
  They are named here, each written exactly as the source computes it, so that the
  properties can speak about them.\<close>

definition availableOf :: "ProviderData \<Rightarrow> nat" where
  "availableOf pd =
     (if poolBalance pd > totalLocked pd then poolBalance pd - totalLocked pd else 0)"

definition totalAvailableOf :: "state \<Rightarrow> address \<Rightarrow> nat" where
  "totalAvailableOf s prov =
     availableOf (providers s prov) + emergencyPool s + platformInsuranceFund s"

definition penaltyOf :: "nat \<Rightarrow> nat" where
  "penaltyOf x = (x * PENALTY_RATE) div 10000"

definition feeOf :: "nat \<Rightarrow> nat" where
  "feeOf x = (x * PLATFORM_FEE_RATE) div 10000"

definition requiredFor :: "nat \<Rightarrow> nat" where
  "requiredFor x = x + penaltyOf x + feeOf x"

text \<open>What \<open>initiateClaim\<close> schedules, defers and locks for a claim of \<open>amt\<close>.\<close>

definition scheduledFor :: "state \<Rightarrow> address \<Rightarrow> nat \<Rightarrow> nat" where
  "scheduledFor s prov amt =
     (if totalAvailableOf s prov \<ge> amt then amt
      else if totalAvailableOf s prov > 0 then totalAvailableOf s prov else 0)"

definition pendingFor :: "state \<Rightarrow> address \<Rightarrow> nat \<Rightarrow> nat" where
  "pendingFor s prov amt =
     (if totalAvailableOf s prov \<ge> amt then 0
      else if totalAvailableOf s prov > 0 then amt - totalAvailableOf s prov else amt)"

definition lockedAfter :: "state \<Rightarrow> address \<Rightarrow> nat \<Rightarrow> nat" where
  "lockedAfter s prov amt =
     (if scheduledFor s prov amt > 0
      then totalLocked (providers s prov) +
        (if requiredFor (scheduledFor s prov amt) \<le> availableOf (providers s prov)
         then requiredFor (scheduledFor s prov amt) else availableOf (providers s prov))
      else totalLocked (providers s prov))"

definition newClaim :: "env \<Rightarrow> address \<Rightarrow> nat \<Rightarrow> ClaimReason \<Rightarrow> state \<Rightarrow> ClaimInfo" where
  "newClaim e prov amt rsn s =
     \<lparr>client = msg_sender e, provider = prov, requestedAmount = amt,
      paidAmount = scheduledFor s prov amt, pendingAmount = pendingFor s prov amt,
      initiatedAt = block_timestamp e,
      disputeDeadline = block_timestamp e + getDisputePeriod amt,
      reason = rsn,
      status = (if totalAvailableOf s prov \<ge> amt then INITIATED else PARTIAL)\<rparr>"

definition deferred :: "env \<Rightarrow> bytes32 \<Rightarrow> address \<Rightarrow> nat \<Rightarrow> state \<Rightarrow> state" where
  "deferred e cm prov amt s =
     (if totalAvailableOf s prov \<ge> amt then s
      else s\<lparr>
        pendingCompensations := (pendingCompensations s)(cm :=
          \<lparr>comp_commitment = cm, comp_client = msg_sender e,
           amount = pendingFor s prov amt,
           createdAt = block_timestamp e, isPaid = False\<rparr>),
        providerPendingCompensations := (providerPendingCompensations s)(prov :=
          providerPendingCompensations s prov @ [cm]),
        totalPendingCompensations := totalPendingCompensations s + pendingFor s prov amt\<rparr>)"

text \<open>What \<open>executeClaim\<close> draws for the claim \<open>cm\<close>: from the provider's pool, and
  the pools after the shortfall has been drawn from them.\<close>

definition fromProviderOf :: "state \<Rightarrow> bytes32 \<Rightarrow> nat" where
  "fromProviderOf s cm =
     (if requiredFor (paidAmount (claims s cm))
           \<le> poolBalance (providers s (provider (claims s cm)))
      then requiredFor (paidAmount (claims s cm))
      else poolBalance (providers s (provider (claims s cm))))"

definition providerAfterPay :: "state \<Rightarrow> bytes32 \<Rightarrow> ProviderData" where
  "providerAfterPay s cm =
     (if fromProviderOf s cm > 0 then
        (providers s (provider (claims s cm)))\<lparr>
          poolBalance := poolBalance (providers s (provider (claims s cm))) - fromProviderOf s cm,
          totalLocked := totalLocked (providers s (provider (claims s cm))) -
            (if fromProviderOf s cm \<le> totalLocked (providers s (provider (claims s cm)))
             then fromProviderOf s cm
             else totalLocked (providers s (provider (claims s cm))))\<rparr>
      else providers s (provider (claims s cm)))"

definition poolsAfterPay :: "state \<Rightarrow> bytes32 \<Rightarrow> nat" where
  "poolsAfterPay s cm =
     (if fromProviderOf s cm > 0 then totalProviderPools s - fromProviderOf s cm
      else totalProviderPools s)"

definition shortfallOf :: "state \<Rightarrow> bytes32 \<Rightarrow> nat" where
  "shortfallOf s cm = requiredFor (paidAmount (claims s cm)) - fromProviderOf s cm"

definition emergencyAfterDraw :: "state \<Rightarrow> bytes32 \<Rightarrow> nat" where
  "emergencyAfterDraw s cm =
     (if fromProviderOf s cm < requiredFor (paidAmount (claims s cm)) then
        (if shortfallOf s cm \<le> emergencyPool s
         then emergencyPool s - shortfallOf s cm else 0)
      else emergencyPool s)"

definition platformAfterDraw :: "state \<Rightarrow> bytes32 \<Rightarrow> nat" where
  "platformAfterDraw s cm =
     (if fromProviderOf s cm < requiredFor (paidAmount (claims s cm)) then
        (if shortfallOf s cm \<le> emergencyPool s
         then platformInsuranceFund s
         else platformInsuranceFund s - (shortfallOf s cm - emergencyPool s))
      else platformInsuranceFund s)"

definition settled :: "bytes32 \<Rightarrow> state \<Rightarrow> state" where
  "settled cm s =
     s\<lparr>providers := (providers s)(provider (claims s cm) := providerAfterPay s cm),
       totalProviderPools := poolsAfterPay s cm,
       emergencyPool := emergencyAfterDraw s cm + penaltyOf (paidAmount (claims s cm)) div 2,
       platformInsuranceFund := platformAfterDraw s cm +
         (penaltyOf (paidAmount (claims s cm)) div 2 + feeOf (paidAmount (claims s cm))),
       token_log := token_log s @ [Transfer (client (claims s cm)) (paidAmount (claims s cm))]\<rparr>"

definition finished :: "bytes32 \<Rightarrow> state \<Rightarrow> state \<Rightarrow> state" where
  "finished cm s s1 =
     s1\<lparr>claims := (claims s1)(cm :=
          (claims s cm)\<lparr>status := (if pendingAmount (claims s cm) = 0 then EXECUTED else PARTIAL)\<rparr>),
        providers :=
          (if pendingAmount (claims s cm) = 0 then
             (providers s1)(provider (claims s cm) := (providers s1 (provider (claims s cm)))\<lparr>
                successfulServices :=
                  successfulServices (providers s1 (provider (claims s cm))) + 1\<rparr>)
           else providers s1),
        totalClaimsExecuted := totalClaimsExecuted s1 + 1\<rparr>"

text \<open>The distribution: the remainder of an entry that still counts, the total of a
  queue, and the share of one entry when \<open>A\<close> is available and \<open>T\<close> is owed in total.\<close>

definition validAmount :: "state \<Rightarrow> bytes32 \<Rightarrow> nat" where
  "validAmount s cm =
     (let comp = pendingCompensations s cm in
      if \<not> isPaid comp \<and> amount comp > 0 then amount comp else 0)"

definition sumValid :: "state \<Rightarrow> bytes32 list \<Rightarrow> nat" where
  "sumValid s cms = sum_list (map (validAmount s) cms)"

definition proportional :: "nat \<Rightarrow> nat \<Rightarrow> nat \<Rightarrow> nat" where
  "proportional A T r = (if (A * r) div T > r then r else (A * r) div T)"

definition shareOf :: "nat \<Rightarrow> nat \<Rightarrow> state \<Rightarrow> bytes32 \<Rightarrow> nat" where
  "shareOf A T s cm = proportional A T (validAmount s cm)"

text \<open>The storage after the second loop of a distribution over the queue \<open>cms\<close>, written
  in one piece: every entry with a positive share gives it up to its claim, and the
  provider's pool and the totals pay the sum of the shares.\<close>

definition distributed :: "address \<Rightarrow> nat \<Rightarrow> nat \<Rightarrow> bytes32 list \<Rightarrow> state \<Rightarrow> state" where
  "distributed prov A T cms s =
     s\<lparr>pendingCompensations := (\<lambda>cm.
          if cm \<in> set cms \<and> shareOf A T s cm > 0 then
            (pendingCompensations s cm)\<lparr>
              amount := amount (pendingCompensations s cm) - shareOf A T s cm,
              isPaid := (if amount (pendingCompensations s cm) - shareOf A T s cm = 0 then True
                         else isPaid (pendingCompensations s cm))\<rparr>
          else pendingCompensations s cm),
       claims := (\<lambda>cm.
          if cm \<in> set cms \<and> shareOf A T s cm > 0 then
            (claims s cm)\<lparr>
              paidAmount := paidAmount (claims s cm) + shareOf A T s cm,
              pendingAmount := pendingAmount (claims s cm) - shareOf A T s cm\<rparr>
          else claims s cm),
       providers := (providers s)(prov := (providers s prov)\<lparr>
          poolBalance := poolBalance (providers s prov) - sum_list (map (shareOf A T s) cms)\<rparr>),
       totalProviderPools := totalProviderPools s - sum_list (map (shareOf A T s) cms),
       totalPendingCompensations :=
         totalPendingCompensations s - sum_list (map (shareOf A T s) cms),
       token_log := token_log s @
         map (\<lambda>cm. Transfer (client (claims s cm)) (shareOf A T s cm))
           (filter (\<lambda>cm. shareOf A T s cm > 0) cms)\<rparr>"

text \<open>The storage after a whole distribution for \<open>prov\<close> that pays something: the
  second loop, then the queue without the entries that are paid.\<close>

definition processed :: "address \<Rightarrow> state \<Rightarrow> state" where
  "processed prov s =
     (let cms = providerPendingCompensations s prov;
          A = poolBalance (providers s prov) - totalLocked (providers s prov);
          d = distributed prov A (sumValid s cms) cms s
      in d\<lparr>providerPendingCompensations := (providerPendingCompensations d)(prov :=
             filter (\<lambda>cm. \<not> isPaid (pendingCompensations d cm)) cms)\<rparr>)"

text \<open>The invariants.\<close>

definition locked_le_pool :: "state \<Rightarrow> bool" where
  "locked_le_pool s = (\<forall>p. totalLocked (providers s p) \<le> poolBalance (providers s p))"

definition claim_sum :: "state \<Rightarrow> bool" where
  "claim_sum s =
     (\<forall>cm. paidAmount (claims s cm) + pendingAmount (claims s cm) = requestedAmount (claims s cm))"

text \<open>A call by \<open>sender\<close> at time \<open>now\<close>, with a token whose transfers succeed.\<close>

definition callAt :: "address \<Rightarrow> nat \<Rightarrow> env" where
  "callAt sender now = \<lparr>msg_sender = sender, block_timestamp = now,
     usdc_transferFrom = (\<lambda>_ _. True), usdc_transfer = (\<lambda>_ _. True)\<rparr>"









section \<open>Reading the functions\<close>

lemma if_Inl_eq_Inr: "((if c then Inl err else x) = Inr y) = (\<not> c \<and> x = Inr y)"
  by simp

lemma case_sum_eq_Inr:
  "((case m of Inl err \<Rightarrow> Inl err | Inr a \<Rightarrow> f a) = Inr y) = (\<exists>a. m = Inr a \<and> f a = Inr y)"
  by (cases m) simp_all

lemma initiateClaim_alt:
  "initiateClaim e cm prov amt rsn s =
     (if \<not> (amt \<ge> MIN_CLAIM_AMOUNT \<and> amt \<le> MAX_CLAIM_AMOUNT) then Inl (Revert ''Invalid amount'')
      else if \<not> initiatedAt (claims s cm) = 0 then Inl (Revert ''Claim already exists'')
      else if \<not> isActive (providers s prov) then Inl (Revert ''Provider not active'')
      else if amt * PENALTY_RATE > MAX_UINT256 \<or> amt * PLATFORM_FEE_RATE > MAX_UINT256
        then Inl Panic
      else if requiredFor amt > MAX_UINT256 then Inl Panic
      else if totalAvailableOf s prov > MAX_UINT256 then Inl Panic
      else
        (case (if totalAvailableOf s prov \<ge> amt then Inr s
               else recordPendingCompensation e cm (msg_sender e) prov (pendingFor s prov amt) s) of
           Inl err \<Rightarrow> Inl err
         | Inr s1 \<Rightarrow>
             if scheduledFor s prov amt * PENALTY_RATE > MAX_UINT256
                \<or> scheduledFor s prov amt * PLATFORM_FEE_RATE > MAX_UINT256 then Inl Panic
             else if requiredFor (scheduledFor s prov amt) > MAX_UINT256 then Inl Panic
             else if scheduledFor s prov amt > 0 \<and> lockedAfter s prov amt > MAX_UINT256
               then Inl Panic
             else if block_timestamp e + getDisputePeriod amt > MAX_UINT256 then Inl Panic
             else if totalClaimsInitiated s1 + 1 > MAX_UINT256 then Inl Panic
             else Inr (s1\<lparr>
               providers := (providers s1)(prov :=
                 (providers s prov)\<lparr>totalLocked := lockedAfter s prov amt\<rparr>),
               claims := (claims s1)(cm := newClaim e prov amt rsn s),
               totalClaimsInitiated := totalClaimsInitiated s1 + 1\<rparr>)))"
  unfolding initiateClaim_def newClaim_def lockedAfter_def pendingFor_def scheduledFor_def
    requiredFor_def penaltyOf_def feeOf_def totalAvailableOf_def availableOf_def Let_def
  by (rule refl)

lemma initiateClaim_Inr:
  assumes "initiateClaim e cm prov amt rsn s = Inr s'"
  shows "MIN_CLAIM_AMOUNT \<le> amt" and "amt \<le> MAX_CLAIM_AMOUNT"
    and "initiatedAt (claims s cm) = 0" and "isActive (providers s prov)"
    and "s' = (deferred e cm prov amt s)\<lparr>
         providers := (providers s)(prov :=
           (providers s prov)\<lparr>totalLocked := lockedAfter s prov amt\<rparr>),
         claims := (claims s)(cm := newClaim e prov amt rsn s),
         totalClaimsInitiated := totalClaimsInitiated s + 1\<rparr>"
  using assms
  unfolding initiateClaim_alt if_Inl_eq_Inr case_sum_eq_Inr
  by (auto simp: recordPendingCompensation_def deferred_def split: if_splits)

lemma executeClaim_alt:
  "executeClaim e cm s =
     (if \<not> initiatedAt (claims s cm) > 0 then Inl (Revert ''Claim not found'')
      else if \<not> (status (claims s cm) = INITIATED \<or> status (claims s cm) = PARTIAL)
        then Inl (Revert ''Invalid claim status'')
      else if \<not> block_timestamp e > disputeDeadline (claims s cm)
        then Inl (Revert ''Still in dispute period'')
      else
        (case
           (if paidAmount (claims s cm) > 0 then
              (if paidAmount (claims s cm) * PENALTY_RATE > MAX_UINT256
                  \<or> paidAmount (claims s cm) * PLATFORM_FEE_RATE > MAX_UINT256 then Inl Panic
               else if requiredFor (paidAmount (claims s cm)) > MAX_UINT256 then Inl Panic
               else if fromProviderOf s cm > 0 \<and> totalProviderPools s < fromProviderOf s cm
                 then Inl Panic
               else if fromProviderOf s cm < requiredFor (paidAmount (claims s cm))
                      \<and> \<not> shortfallOf s cm \<le> emergencyPool s
                      \<and> platformInsuranceFund s < shortfallOf s cm - emergencyPool s
                 then Inl Panic
               else if emergencyAfterDraw s cm + penaltyOf (paidAmount (claims s cm)) div 2
                       > MAX_UINT256 then Inl Panic
               else if penaltyOf (paidAmount (claims s cm)) div 2
                       + feeOf (paidAmount (claims s cm)) > MAX_UINT256 then Inl Panic
               else if platformAfterDraw s cm + (penaltyOf (paidAmount (claims s cm)) div 2
                       + feeOf (paidAmount (claims s cm))) > MAX_UINT256 then Inl Panic
               else if \<not> usdc_transfer e (client (claims s cm)) (paidAmount (claims s cm))
                 then Inl (Revert ''Transfer failed'')
               else Inr (settled cm s))
            else Inr s) of
           Inl err \<Rightarrow> Inl err
         | Inr s1 \<Rightarrow>
             if pendingAmount (claims s cm) = 0
                \<and> successfulServices (providers s1 (provider (claims s cm))) + 1 > MAX_UINT256
               then Inl Panic
             else if totalClaimsExecuted s1 + 1 > MAX_UINT256 then Inl Panic
             else Inr (finished cm s s1)))"
  unfolding executeClaim_def finished_def settled_def platformAfterDraw_def
    emergencyAfterDraw_def shortfallOf_def poolsAfterPay_def providerAfterPay_def
    fromProviderOf_def requiredFor_def penaltyOf_def feeOf_def Let_def
  by (rule refl)

lemma payOne_alt:
  "payOne e prov A T cm (s, tc, cp) =
     (if \<not> isPaid (pendingCompensations s cm) \<and> amount (pendingCompensations s cm) > 0 then
        (if A * amount (pendingCompensations s cm) > MAX_UINT256 then Inl Panic
         else if T = 0 then Inl Panic
         else
           if proportional A T (amount (pendingCompensations s cm)) > 0 then
             (if amount (pendingCompensations s cm)
                   < proportional A T (amount (pendingCompensations s cm)) then Inl Panic
              else if paidAmount (claims s cm)
                   + proportional A T (amount (pendingCompensations s cm)) > MAX_UINT256
                then Inl Panic
              else if pendingAmount (claims s cm)
                   < proportional A T (amount (pendingCompensations s cm)) then Inl Panic
              else if poolBalance (providers s prov)
                   < proportional A T (amount (pendingCompensations s cm)) then Inl Panic
              else if totalProviderPools s
                   < proportional A T (amount (pendingCompensations s cm)) then Inl Panic
              else if \<not> usdc_transfer e (client (claims s cm))
                        (proportional A T (amount (pendingCompensations s cm)))
                then Inl (Revert ''Compensation transfer failed'')
              else if tc + proportional A T (amount (pendingCompensations s cm)) > MAX_UINT256
                then Inl Panic
              else if cp + 1 > MAX_UINT256 then Inl Panic
              else if totalPendingCompensations s
                   < proportional A T (amount (pendingCompensations s cm)) then Inl Panic
              else Inr (s\<lparr>
                pendingCompensations := (pendingCompensations s)(cm :=
                  (pendingCompensations s cm)\<lparr>
                    amount := amount (pendingCompensations s cm)
                      - proportional A T (amount (pendingCompensations s cm)),
                    isPaid := (if amount (pendingCompensations s cm)
                         - proportional A T (amount (pendingCompensations s cm)) = 0 then True
                       else isPaid (pendingCompensations s cm))\<rparr>),
                claims := (claims s)(cm :=
                  (claims s cm)\<lparr>
                    paidAmount := paidAmount (claims s cm)
                      + proportional A T (amount (pendingCompensations s cm)),
                    pendingAmount := pendingAmount (claims s cm)
                      - proportional A T (amount (pendingCompensations s cm))\<rparr>),
                providers := (providers s)(prov :=
                  (providers s prov)\<lparr>poolBalance := poolBalance (providers s prov)
                      - proportional A T (amount (pendingCompensations s cm))\<rparr>),
                totalProviderPools := totalProviderPools s
                  - proportional A T (amount (pendingCompensations s cm)),
                totalPendingCompensations := totalPendingCompensations s
                  - proportional A T (amount (pendingCompensations s cm)),
                token_log := token_log s @ [Transfer (client (claims s cm))
                  (proportional A T (amount (pendingCompensations s cm)))]\<rparr>,
                tc + proportional A T (amount (pendingCompensations s cm)), cp + 1))
           else Inr (s, tc, cp))
      else Inr (s, tc, cp))"
  unfolding payOne_def proportional_def Let_def prod.case
  by (rule refl)

section \<open>The pool covers the locks\<close>

lemma sumPending_total:
  "sumPending s cms tp vc = Inr (T, n) \<Longrightarrow> T = tp + sumValid s cms"
proof (induction cms arbitrary: tp vc)
  case Nil
  then show ?case by (simp add: sumValid_def)
next
  case (Cons cm cms)
  show ?case
  proof (cases "\<not> isPaid (pendingCompensations s cm) \<and> amount (pendingCompensations s cm) > 0")
    case True
    with Cons.prems have "sumPending s cms (tp + amount (pendingCompensations s cm)) (vc + 1) = Inr (T, n)"
      by (simp add: Let_def split: if_splits)
    from Cons.IH [OF this] True show ?thesis
      by (simp add: sumValid_def validAmount_def)
  next
    case False
    with Cons.prems have "sumPending s cms tp vc = Inr (T, n)"
      by (auto simp add: Let_def split: if_splits)
    from Cons.IH [OF this] False show ?thesis
      by (auto simp add: sumValid_def validAmount_def)
  qed
qed

lemma payOne_frame:
  assumes "payOne e p A T cm (s, tc, cp) = Inr (s', tc', cp')"
  shows "(\<forall>x. validAmount s' x \<le> validAmount s x)"
    and "poolBalance (providers s p) \<le> poolBalance (providers s' p) + (A * validAmount s cm) div T"
    and "poolBalance (providers s' p) \<le> poolBalance (providers s p)"
    and "\<forall>q. totalLocked (providers s' q) = totalLocked (providers s q)"
    and "\<forall>q. q \<noteq> p \<longrightarrow> providers s' q = providers s q"
  using assms
  by (auto simp: payOne_def validAmount_def Let_def split: if_splits)


lemma sumValid_mono:
  "\<forall>x. validAmount s' x \<le> validAmount s x \<Longrightarrow> sumValid s' cms \<le> sumValid s cms"
  unfolding sumValid_def by (induction cms) (auto intro: add_mono)

lemma div_add_le_nat: "(a::nat) div T + b div T \<le> (a + b) div T"
proof (cases "T = 0")
  case True
  then show ?thesis by simp
next
  case False
  have "(a div T + b div T) * T \<le> a + b"
    by (simp add: add_mult_distrib add_mono)
  then show ?thesis
    using False by (simp add: less_eq_div_iff_mult_less_eq)
qed

lemma payLoop_frame:
  "payLoop e p A T cms (s, tc, cp) = Inr (s', tc', cp') \<Longrightarrow>
     (\<forall>x. validAmount s' x \<le> validAmount s x)
     \<and> poolBalance (providers s p) \<le> poolBalance (providers s' p) + (A * sumValid s cms) div T
     \<and> poolBalance (providers s' p) \<le> poolBalance (providers s p)
     \<and> (\<forall>q. totalLocked (providers s' q) = totalLocked (providers s q))
     \<and> (\<forall>q. q \<noteq> p \<longrightarrow> providers s' q = providers s q)"
proof (induction cms arbitrary: s tc cp)
  case Nil
  then show ?case by (simp add: sumValid_def)
next
  case (Cons cm cms)
  from Cons.prems obtain s1 tc1 cp1 where
    one: "payOne e p A T cm (s, tc, cp) = Inr (s1, tc1, cp1)" and
    rest: "payLoop e p A T cms (s1, tc1, cp1) = Inr (s', tc', cp')"
    by (auto split: sum.splits)
  note f1 = payOne_frame [OF one]
  note f2 = Cons.IH [OF rest]
  have m: "sumValid s1 cms \<le> sumValid s cms"
    using f1(1) by (rule sumValid_mono)
  have "(A * sumValid s1 cms) div T \<le> (A * sumValid s cms) div T"
    using m by (simp add: div_le_mono)
  moreover have "(A * validAmount s cm) div T + (A * sumValid s cms) div T
      \<le> (A * sumValid s (cm # cms)) div T"
    using div_add_le_nat [of "A * validAmount s cm" T "A * sumValid s cms"]
    by (simp add: sumValid_def distrib_left)
  ultimately have "poolBalance (providers s p)
      \<le> poolBalance (providers s' p) + (A * sumValid s (cm # cms)) div T"
    using f1(2) f2 by linarith
  moreover have "\<forall>x. validAmount s' x \<le> validAmount s x"
    using f1(1) f2 by (meson le_trans)
  ultimately show ?case
    using f1 f2 by (auto intro: le_trans)
qed




lemma process_cases:
  assumes "processProportionalCompensations e p s = Inr s'"
  shows "s' = s \<or>
    (\<exists>T n s1 tc cp.
       totalLocked (providers s p) < poolBalance (providers s p)
       \<and> sumPending s (providerPendingCompensations s p) 0 0 = Inr (T, n) \<and> T \<noteq> 0
       \<and> payLoop e p (poolBalance (providers s p) - totalLocked (providers s p)) T
            (providerPendingCompensations s p) (s, 0, 0) = Inr (s1, tc, cp)
       \<and> s' = s1\<lparr>providerPendingCompensations := (providerPendingCompensations s1)(p :=
                  popLoop (fst (compactLoop s1 0 0 (providerPendingCompensations s p)))
                    (snd (compactLoop s1 0 0 (providerPendingCompensations s p))))\<rparr>)"
proof (cases "providerPendingCompensations s p = []
              \<or> \<not> totalLocked (providers s p) < poolBalance (providers s p)")
  case True
  with assms have "s' = s"
    by (cases "providerPendingCompensations s p = []")
       (simp_all add: processProportionalCompensations_def Let_def)
  then show ?thesis ..
next
  case False
  then have ne: "providerPendingCompensations s p \<noteq> []"
    and A: "totalLocked (providers s p) < poolBalance (providers s p)" by auto
  show ?thesis
  proof (cases "sumPending s (providerPendingCompensations s p) 0 0")
    case (Inl err)
    with assms ne A show ?thesis
      by (simp add: processProportionalCompensations_def Let_def)
  next
    case (Inr r)
    obtain T n where r: "r = (T, n)" by (cases r)
    show ?thesis
    proof (cases "T = 0")
      case True
      with assms ne A Inr r show ?thesis
        by (simp add: processProportionalCompensations_def Let_def)
    next
      case False
      show ?thesis
      proof (cases "payLoop e p (poolBalance (providers s p) - totalLocked (providers s p)) T
            (providerPendingCompensations s p) (s, 0, 0)")
        case (Inl err)
        with assms ne A Inr r False show ?thesis
          by (simp add: processProportionalCompensations_def Let_def)
      next
        case pl: (Inr r2)
        obtain s1 tc cp where r2: "r2 = (s1, tc, cp)" by (cases r2)
        from assms ne A Inr r False pl r2 have
          "s' = s1\<lparr>providerPendingCompensations := (providerPendingCompensations s1)(p :=
                  popLoop (fst (compactLoop s1 0 0 (providerPendingCompensations s p)))
                    (snd (compactLoop s1 0 0 (providerPendingCompensations s p))))\<rparr>"
          by (simp add: processProportionalCompensations_def Let_def split: prod.splits)
        with A Inr r False pl r2 show ?thesis by blast
      qed
    qed
  qed
qed



lemma process_locked_le_pool:
  assumes "processProportionalCompensations e p s = Inr s'" and "locked_le_pool s"
  shows "locked_le_pool s'"
  using process_cases [OF assms(1)]
proof
  assume "s' = s"
  with assms(2) show ?thesis by simp
next
  assume "\<exists>T n s1 tc cp.
       totalLocked (providers s p) < poolBalance (providers s p)
       \<and> sumPending s (providerPendingCompensations s p) 0 0 = Inr (T, n) \<and> T \<noteq> 0
       \<and> payLoop e p (poolBalance (providers s p) - totalLocked (providers s p)) T
            (providerPendingCompensations s p) (s, 0, 0) = Inr (s1, tc, cp)
       \<and> s' = s1\<lparr>providerPendingCompensations := (providerPendingCompensations s1)(p :=
                  popLoop (fst (compactLoop s1 0 0 (providerPendingCompensations s p)))
                    (snd (compactLoop s1 0 0 (providerPendingCompensations s p))))\<rparr>"
  then obtain T n s1 tc cp where
    A: "totalLocked (providers s p) < poolBalance (providers s p)" and
    sp: "sumPending s (providerPendingCompensations s p) 0 0 = Inr (T, n)" and T: "T \<noteq> 0" and
    pl: "payLoop e p (poolBalance (providers s p) - totalLocked (providers s p)) T
            (providerPendingCompensations s p) (s, 0, 0) = Inr (s1, tc, cp)" and
    s': "providers s' = providers s1"
    by auto
  from sumPending_total [OF sp] have Tsum: "T = sumValid s (providerPendingCompensations s p)"
    by simp
  note f = payLoop_frame [OF pl]
  have "((poolBalance (providers s p) - totalLocked (providers s p))
          * sumValid s (providerPendingCompensations s p)) div T
        = poolBalance (providers s p) - totalLocked (providers s p)"
    using T Tsum by simp
  with f have le: "poolBalance (providers s p)
      \<le> poolBalance (providers s1 p) + (poolBalance (providers s p) - totalLocked (providers s p))"
    by simp
  show ?thesis
    unfolding locked_le_pool_def s'
  proof
    fix q
    show "totalLocked (providers s1 q) \<le> poolBalance (providers s1 q)"
    proof (cases "q = p")
      case True
      from f have "totalLocked (providers s1 p) = totalLocked (providers s p)" by simp
      with le A True show ?thesis by simp
    next
      case False
      with f have "providers s1 q = providers s q" by simp
      with assms(2) show ?thesis by (simp add: locked_le_pool_def)
    qed
  qed
qed

lemma registerOrReactivate_locked_le_pool:
  assumes "registerOrReactivate e amt s = Inr s'" and "locked_le_pool s"
  shows "locked_le_pool s'"
proof -
  let ?pd0 = "providers s (msg_sender e)"
  let ?pd = "if registeredAt ?pd0 = 0
             then ?pd0\<lparr>tier := 1, registeredAt := block_timestamp e\<rparr> else ?pd0"
  let ?s1 = "s\<lparr>
      providers := (providers s)(msg_sender e :=
        ?pd\<lparr>isActive := True, poolBalance := poolBalance ?pd + amt\<rparr>),
      totalProviderPools := totalProviderPools s + amt,
      token_log := token_log s @ [TransferFrom (msg_sender e) amt]\<rparr>"
  have s1: "locked_le_pool ?s1"
    using assms(2) by (auto simp: locked_le_pool_def intro: trans_le_add1)
  from assms(1) have "s' = ?s1 \<or> processProportionalCompensations e (msg_sender e) ?s1 = Inr s'"
    by (simp add: registerOrReactivate_def Let_def split: if_splits)
  with s1 show ?thesis
    by (auto intro: process_locked_le_pool)
qed

lemma depositAdditional_locked_le_pool:
  assumes "depositAdditional e amt s = Inr s'" and "locked_le_pool s"
  shows "locked_le_pool s'"
proof -
  let ?pd = "providers s (msg_sender e)"
  let ?s1 = "s\<lparr>
      providers := (providers s)(msg_sender e := ?pd\<lparr>poolBalance := poolBalance ?pd + amt\<rparr>),
      totalProviderPools := totalProviderPools s + amt,
      token_log := token_log s @ [TransferFrom (msg_sender e) amt]\<rparr>"
  have s1: "locked_le_pool ?s1"
    using assms(2) by (auto simp: locked_le_pool_def intro: trans_le_add1)
  from assms(1) have "s' = ?s1 \<or> processProportionalCompensations e (msg_sender e) ?s1 = Inr s'"
    by (simp add: depositAdditional_def Let_def split: if_splits)
  with s1 show ?thesis
    by (auto intro: process_locked_le_pool)
qed

lemma withdraw_locked_le_pool:
  assumes "withdraw e amt s = Inr s'" and "locked_le_pool s"
  shows "locked_le_pool s'"
  using assms
  by (auto simp: withdraw_def Let_def locked_le_pool_def split: if_splits)

lemma withdrawAllAndDeactivate_locked_le_pool:
  assumes "withdrawAllAndDeactivate e s = Inr s'" and "locked_le_pool s"
  shows "locked_le_pool s'"
  using assms
  by (auto simp: withdrawAllAndDeactivate_def Let_def locked_le_pool_def split: if_splits)

lemma lockedAfter_le:
  "lockedAfter s prov amt \<le> max (poolBalance (providers s prov)) (totalLocked (providers s prov))"
  by (auto simp: lockedAfter_def availableOf_def)

lemma deferred_providers: "providers (deferred e cm prov amt s) = providers s"
  by (simp add: deferred_def)

lemma deferred_claims: "claims (deferred e cm prov amt s) = claims s"
  by (simp add: deferred_def)

lemma initiateClaim_locked_le_pool:
  assumes "initiateClaim e cm prov amt rsn s = Inr s'" and "locked_le_pool s"
  shows "locked_le_pool s'"
proof -
  have p: "providers s' = (providers s)(prov :=
      (providers s prov)\<lparr>totalLocked := lockedAfter s prov amt\<rparr>)"
    by (simp add: initiateClaim_Inr(5) [OF assms(1)])
  from assms(2) have "totalLocked (providers s prov) \<le> poolBalance (providers s prov)"
    by (simp add: locked_le_pool_def)
  with lockedAfter_le [of s prov amt]
  have "lockedAfter s prov amt \<le> poolBalance (providers s prov)" by simp
  with assms(2) show ?thesis
    by (simp add: locked_le_pool_def p)
qed

lemma executeClaim_Inr:
  assumes "executeClaim e cm s = Inr s'"
  shows "initiatedAt (claims s cm) > 0"
    and "status (claims s cm) = INITIATED \<or> status (claims s cm) = PARTIAL"
    and "block_timestamp e > disputeDeadline (claims s cm)"
    and "s' = finished cm s (if paidAmount (claims s cm) > 0 then settled cm s else s)"
    and "paidAmount (claims s cm) > 0 \<longrightarrow>
           shortfallOf s cm - emergencyPool s \<le> platformInsuranceFund s"
  using assms
  unfolding executeClaim_alt if_Inl_eq_Inr case_sum_eq_Inr
  by (auto simp: shortfallOf_def split: if_splits)

lemma settled_locked_le_pool:
  assumes "locked_le_pool s"
  shows "locked_le_pool (settled cm s)"
  unfolding locked_le_pool_def
proof
  fix p
  from assms have "totalLocked (providers s p) \<le> poolBalance (providers s p)"
    by (simp add: locked_le_pool_def)
  then show "totalLocked (providers (settled cm s) p) \<le> poolBalance (providers (settled cm s) p)"
    by (auto simp: settled_def providerAfterPay_def intro: diff_le_mono)
qed

lemma finished_locked_le_pool:
  assumes "locked_le_pool s1"
  shows "locked_le_pool (finished cm s s1)"
  using assms
  by (auto simp: locked_le_pool_def finished_def)

lemma executeClaim_locked_le_pool:
  assumes "executeClaim e cm s = Inr s'" and "locked_le_pool s"
  shows "locked_le_pool s'"
  unfolding executeClaim_Inr(4) [OF assms(1)]
  using assms(2) by (auto intro: finished_locked_le_pool settled_locked_le_pool)

lemma disputeClaim_Inr:
  assumes "disputeClaim e cm evidence s = Inr s'"
  shows "initiatedAt (claims s cm) > 0" and "provider (claims s cm) = msg_sender e"
    and "status (claims s cm) = INITIATED \<or> status (claims s cm) = PARTIAL"
    and "block_timestamp e \<le> disputeDeadline (claims s cm)"
    and "s' = s\<lparr>
      claims := (claims s)(cm := (claims s cm)\<lparr>status := DISPUTED\<rparr>),
      providers :=
        (if paidAmount (claims s cm) > 0 then
           (providers s)(msg_sender e := (providers s (msg_sender e))\<lparr>totalLocked :=
              (if requiredFor (paidAmount (claims s cm)) \<le> totalLocked (providers s (msg_sender e))
               then totalLocked (providers s (msg_sender e)) - requiredFor (paidAmount (claims s cm))
               else 0)\<rparr>)
         else providers s)\<rparr>"
  using assms
  unfolding disputeClaim_def Let_def if_Inl_eq_Inr
  by (auto simp: requiredFor_def penaltyOf_def feeOf_def split: if_splits)

lemma disputeClaim_locked_le_pool:
  assumes "disputeClaim e cm evidence s = Inr s'" and "locked_le_pool s"
  shows "locked_le_pool s'"
  unfolding disputeClaim_Inr(5) [OF assms(1)]
  using assms(2) by (auto simp: locked_le_pool_def intro: le_trans [OF diff_le_self])

lemma exec_locked_le_pool:
  assumes "exec e c s = Inr s'" and "locked_le_pool s"
  shows "locked_le_pool s'"
proof (cases c)
  case (RegisterOrReactivate amt)
  with assms show ?thesis by (auto intro: registerOrReactivate_locked_le_pool)
next
  case (DepositAdditional amt)
  with assms show ?thesis by (auto intro: depositAdditional_locked_le_pool)
next
  case (Withdraw amt)
  with assms show ?thesis by (auto intro: withdraw_locked_le_pool)
next
  case WithdrawAllAndDeactivate
  with assms show ?thesis by (auto intro: withdrawAllAndDeactivate_locked_le_pool)
next
  case (InitiateClaim cm prov amt rsn)
  with assms show ?thesis by (auto intro: initiateClaim_locked_le_pool)
next
  case (ExecuteClaim cm)
  with assms show ?thesis by (auto intro: executeClaim_locked_le_pool)
next
  case (DisputeClaim cm evidence)
  with assms show ?thesis by (auto intro: disputeClaim_locked_le_pool)
next
  case (FundEmergencyPool amt)
  with assms show ?thesis
    by (auto simp: fundEmergencyPool_def locked_le_pool_def split: if_splits)
next
  case (FundPlatformInsurance amt)
  with assms show ?thesis
    by (auto simp: fundPlatformInsurance_def locked_le_pool_def split: if_splits)
next
  case (TransferOwnership newOwner)
  with assms show ?thesis
    by (auto simp: transferOwnership_def locked_le_pool_def split: if_splits)
next
  case RenounceOwnership
  with assms show ?thesis
    by (auto simp: renounceOwnership_def locked_le_pool_def split: if_splits)
next
  case (Distribute prov)
  with assms show ?thesis by (auto intro: process_locked_le_pool)
qed

lemma reachable_locked_le_pool: "reachable s \<Longrightarrow> locked_le_pool s"
proof (induction rule: reachable.induct)
  case (reachable_init own)
  show ?case by (simp add: locked_le_pool_def init_def zeroProvider_def)
next
  case (reachable_step s e c s')
  then show ?case by (auto intro: exec_locked_le_pool)
qed

lemma run_reachable: "reachable s \<Longrightarrow> run cs s = Inr s' \<Longrightarrow> reachable s'"
proof (induction cs arbitrary: s)
  case Nil
  then show ?case by simp
next
  case (Cons ec cs)
  obtain e c where ec: "ec = (e, c)" by (cases ec)
  from Cons.prems(2) ec obtain s1 where
    one: "exec e c s = Inr s1" and rest: "run cs s1 = Inr s'"
    by (auto split: sum.splits)
  from Cons.prems(1) one have "reachable s1" by (rule reachable_step)
  from Cons.IH [OF this rest] show ?case .
qed

lemma run_snoc:
  "run (cs @ [(e, c)]) s = (case run cs s of Inl err \<Rightarrow> Inl err | Inr s1 \<Rightarrow> exec e c s1)"
proof (induction cs arbitrary: s)
  case Nil
  show ?case by (simp split: sum.splits)
next
  case (Cons ec cs)
  obtain e1 c1 where ec: "ec = (e1, c1)" by (cases ec)
  show ?case
    by (simp add: ec Cons.IH split: sum.splits)
qed

lemma run_then:
  assumes "run cs s = Inr s1" and "run (cs @ [(e, c)]) s = Inr s2"
  shows "exec e c s1 = Inr s2"
  using assms by (simp add: run_snoc)

section \<open>Paid and pending add up to the request\<close>

lemma payOne_claim_sum:
  assumes "payOne e p A T cm (s, tc, cp) = Inr (s', tc', cp')" and "claim_sum s"
  shows "claim_sum s'"
  using assms
  by (auto simp: payOne_def claim_sum_def Let_def split: if_splits)

lemma payLoop_claim_sum:
  "payLoop e p A T cms (s, tc, cp) = Inr (s', tc', cp') \<Longrightarrow> claim_sum s \<Longrightarrow> claim_sum s'"
proof (induction cms arbitrary: s tc cp)
  case Nil
  then show ?case by simp
next
  case (Cons cm cms)
  from Cons.prems(1) obtain s1 tc1 cp1 where
    one: "payOne e p A T cm (s, tc, cp) = Inr (s1, tc1, cp1)" and
    rest: "payLoop e p A T cms (s1, tc1, cp1) = Inr (s', tc', cp')"
    by (auto split: sum.splits)
  from payOne_claim_sum [OF one Cons.prems(2)] have "claim_sum s1" .
  from Cons.IH [OF rest this] show ?case .
qed

lemma process_claim_sum:
  assumes "processProportionalCompensations e p s = Inr s'" and "claim_sum s"
  shows "claim_sum s'"
  using process_cases [OF assms(1)]
proof
  assume "s' = s"
  with assms(2) show ?thesis by simp
next
  assume "\<exists>T n s1 tc cp.
       totalLocked (providers s p) < poolBalance (providers s p)
       \<and> sumPending s (providerPendingCompensations s p) 0 0 = Inr (T, n) \<and> T \<noteq> 0
       \<and> payLoop e p (poolBalance (providers s p) - totalLocked (providers s p)) T
            (providerPendingCompensations s p) (s, 0, 0) = Inr (s1, tc, cp)
       \<and> s' = s1\<lparr>providerPendingCompensations := (providerPendingCompensations s1)(p :=
                  popLoop (fst (compactLoop s1 0 0 (providerPendingCompensations s p)))
                    (snd (compactLoop s1 0 0 (providerPendingCompensations s p))))\<rparr>"
  then obtain T s1 tc cp where
    pl: "payLoop e p (poolBalance (providers s p) - totalLocked (providers s p)) T
            (providerPendingCompensations s p) (s, 0, 0) = Inr (s1, tc, cp)" and
    s': "claims s' = claims s1"
    by auto
  from payLoop_claim_sum [OF pl assms(2)] s' show ?thesis
    by (simp add: claim_sum_def)
qed

lemma registerOrReactivate_claim_sum:
  assumes "registerOrReactivate e amt s = Inr s'" and "claim_sum s"
  shows "claim_sum s'"
proof -
  let ?pd0 = "providers s (msg_sender e)"
  let ?pd = "if registeredAt ?pd0 = 0
             then ?pd0\<lparr>tier := 1, registeredAt := block_timestamp e\<rparr> else ?pd0"
  let ?s1 = "s\<lparr>
      providers := (providers s)(msg_sender e :=
        ?pd\<lparr>isActive := True, poolBalance := poolBalance ?pd + amt\<rparr>),
      totalProviderPools := totalProviderPools s + amt,
      token_log := token_log s @ [TransferFrom (msg_sender e) amt]\<rparr>"
  have s1: "claim_sum ?s1"
    using assms(2) by (simp add: claim_sum_def)
  from assms(1) have "s' = ?s1 \<or> processProportionalCompensations e (msg_sender e) ?s1 = Inr s'"
    by (simp add: registerOrReactivate_def Let_def split: if_splits)
  with s1 show ?thesis
    by (auto intro: process_claim_sum)
qed

lemma depositAdditional_claim_sum:
  assumes "depositAdditional e amt s = Inr s'" and "claim_sum s"
  shows "claim_sum s'"
proof -
  let ?pd = "providers s (msg_sender e)"
  let ?s1 = "s\<lparr>
      providers := (providers s)(msg_sender e := ?pd\<lparr>poolBalance := poolBalance ?pd + amt\<rparr>),
      totalProviderPools := totalProviderPools s + amt,
      token_log := token_log s @ [TransferFrom (msg_sender e) amt]\<rparr>"
  have s1: "claim_sum ?s1"
    using assms(2) by (simp add: claim_sum_def)
  from assms(1) have "s' = ?s1 \<or> processProportionalCompensations e (msg_sender e) ?s1 = Inr s'"
    by (simp add: depositAdditional_def Let_def split: if_splits)
  with s1 show ?thesis
    by (auto intro: process_claim_sum)
qed

lemma scheduled_plus_pending: "scheduledFor s prov amt + pendingFor s prov amt = amt"
  by (simp add: scheduledFor_def pendingFor_def)

lemma initiateClaim_claim_sum:
  assumes "initiateClaim e cm prov amt rsn s = Inr s'" and "claim_sum s"
  shows "claim_sum s'"
  unfolding initiateClaim_Inr(5) [OF assms(1)]
  using assms(2)
  by (simp add: claim_sum_def deferred_claims newClaim_def scheduled_plus_pending)

lemma executeClaim_claim_sum:
  assumes "executeClaim e cm s = Inr s'" and "claim_sum s"
  shows "claim_sum s'"
proof -
  have "\<forall>x. paidAmount (claims s' x) = paidAmount (claims s x)
      \<and> pendingAmount (claims s' x) = pendingAmount (claims s x)
      \<and> requestedAmount (claims s' x) = requestedAmount (claims s x)"
    by (simp add: executeClaim_Inr(4) [OF assms(1)] finished_def settled_def)
  with assms(2) show ?thesis
    by (simp add: claim_sum_def)
qed

lemma disputeClaim_claim_sum:
  assumes "disputeClaim e cm evidence s = Inr s'" and "claim_sum s"
  shows "claim_sum s'"
  unfolding disputeClaim_Inr(5) [OF assms(1)]
  using assms(2)
  by (simp add: claim_sum_def)

lemma exec_claim_sum:
  assumes "exec e c s = Inr s'" and "claim_sum s"
  shows "claim_sum s'"
proof (cases c)
  case (RegisterOrReactivate amt)
  with assms show ?thesis by (auto intro: registerOrReactivate_claim_sum)
next
  case (DepositAdditional amt)
  with assms show ?thesis by (auto intro: depositAdditional_claim_sum)
next
  case (Withdraw amt)
  with assms show ?thesis
    by (auto simp: withdraw_def Let_def claim_sum_def split: if_splits)
next
  case WithdrawAllAndDeactivate
  with assms show ?thesis
    by (auto simp: withdrawAllAndDeactivate_def Let_def claim_sum_def split: if_splits)
next
  case (InitiateClaim cm prov amt rsn)
  with assms show ?thesis by (auto intro: initiateClaim_claim_sum)
next
  case (ExecuteClaim cm)
  with assms show ?thesis by (auto intro: executeClaim_claim_sum)
next
  case (DisputeClaim cm evidence)
  with assms show ?thesis by (auto intro: disputeClaim_claim_sum)
next
  case (FundEmergencyPool amt)
  with assms show ?thesis
    by (auto simp: fundEmergencyPool_def claim_sum_def split: if_splits)
next
  case (FundPlatformInsurance amt)
  with assms show ?thesis
    by (auto simp: fundPlatformInsurance_def claim_sum_def split: if_splits)
next
  case (TransferOwnership newOwner)
  with assms show ?thesis
    by (auto simp: transferOwnership_def claim_sum_def split: if_splits)
next
  case RenounceOwnership
  with assms show ?thesis
    by (auto simp: renounceOwnership_def claim_sum_def split: if_splits)
next
  case (Distribute prov)
  with assms show ?thesis by (auto intro: process_claim_sum)
qed

lemma reachable_claim_sum: "reachable s \<Longrightarrow> claim_sum s"
proof (induction rule: reachable.induct)
  case (reachable_init own)
  show ?case by (simp add: claim_sum_def init_def zeroClaim_def)
next
  case (reachable_step s e c s')
  then show ?case by (auto intro: exec_claim_sum)
qed

section \<open>What a new claim is scheduled for\<close>

lemma scheduledFor_le: "scheduledFor s prov amt \<le> amt"
  by (simp add: scheduledFor_def)

lemma claim_amount_in_range:
  assumes "x \<le> MAX_CLAIM_AMOUNT"
  shows "x * PENALTY_RATE \<le> MAX_UINT256" and "x * PLATFORM_FEE_RATE \<le> MAX_UINT256"
    and "requiredFor x \<le> MAX_UINT256"
proof -
  from assms have x: "x \<le> 10000000000"
    by (simp add: MAX_CLAIM_AMOUNT_def)
  then have "x * 1000 \<le> 10000000000000" and "x * 100 \<le> 1000000000000" by simp_all
  moreover have "x * 1000 div 10000 \<le> x * 1000" and "x * 100 div 10000 \<le> x * 100"
    by (rule div_le_dividend)+
  ultimately show "x * PENALTY_RATE \<le> MAX_UINT256" and "x * PLATFORM_FEE_RATE \<le> MAX_UINT256"
    and "requiredFor x \<le> MAX_UINT256"
    using x
    by (simp_all add: PENALTY_RATE_def PLATFORM_FEE_RATE_def MAX_UINT256_def requiredFor_def
          penaltyOf_def feeOf_def)
qed

lemma initiateClaim_succeeds:
  assumes "MIN_CLAIM_AMOUNT \<le> amt" and "amt \<le> MAX_CLAIM_AMOUNT"
    and "initiatedAt (claims s cm) = 0" and "isActive (providers s prov)"
    and "poolBalance (providers s prov) \<le> MAX_UINT256"
    and "totalLocked (providers s prov) \<le> MAX_UINT256"
    and "totalAvailableOf s prov \<le> MAX_UINT256"
    and "totalPendingCompensations s + amt \<le> MAX_UINT256"
    and "block_timestamp e + getDisputePeriod amt \<le> MAX_UINT256"
    and "totalClaimsInitiated s < MAX_UINT256"
  shows "initiateClaim e cm prov amt rsn s = Inr ((deferred e cm prov amt s)\<lparr>
         providers := (providers s)(prov :=
           (providers s prov)\<lparr>totalLocked := lockedAfter s prov amt\<rparr>),
         claims := (claims s)(cm := newClaim e prov amt rsn s),
         totalClaimsInitiated := totalClaimsInitiated s + 1\<rparr>)"
proof -
  note a = claim_amount_in_range [OF assms(2)]
  have "scheduledFor s prov amt \<le> MAX_CLAIM_AMOUNT"
    using scheduledFor_le [of s prov amt] assms(2) by (rule le_trans)
  note b = claim_amount_in_range [OF this]
  have l: "lockedAfter s prov amt \<le> MAX_UINT256"
    using lockedAfter_le [of s prov amt] assms(5,6) by simp
  have p: "pendingFor s prov amt \<le> amt"
    by (simp add: pendingFor_def)
  with assms(8) have q: "totalPendingCompensations s + pendingFor s prov amt \<le> MAX_UINT256"
    by simp
  show ?thesis
    unfolding initiateClaim_alt
    using assms a b l q
    by (simp add: recordPendingCompensation_def deferred_def)
qed

section \<open>Compaction of the queue\<close>

lemma popLoop_take: "popLoop w cms = take w cms"
proof (induction w cms rule: popLoop.induct)
  case (1 w cms)
  show ?case
  proof (cases "length cms > w")
    case True
    then have "popLoop w cms = popLoop w (butlast cms)"
      by (simp add: popLoop.simps [of w cms])
    also have "\<dots> = take w (butlast cms)"
      using True by (rule "1.IH")
    also have "\<dots> = take w cms"
      using True by (simp add: take_butlast)
    finally show ?thesis .
  next
    case False
    then show ?thesis
      by (simp add: popLoop.simps [of w cms])
  qed
qed

lemma compactLoop_take:
  "w \<le> i \<Longrightarrow> i \<le> length cms \<Longrightarrow>
     take (fst (compactLoop s i w cms)) (snd (compactLoop s i w cms))
       = take w cms @ filter (\<lambda>cm. \<not> isPaid (pendingCompensations s cm)) (drop i cms)"
proof (induction s i w cms rule: compactLoop.induct)
  case (1 s i w cms)
  let ?P = "\<lambda>cm. \<not> isPaid (pendingCompensations s cm)"
  show ?case
  proof (cases "i < length cms")
    case False
    then have "compactLoop s i w cms = (w, cms)"
      by (simp add: compactLoop.simps [of s i w cms])
    with False show ?thesis by simp
  next
    case True
    then have d: "drop i cms = cms ! i # drop (Suc i) cms"
      by (simp add: Cons_nth_drop_Suc)
    show ?thesis
    proof (cases "?P (cms ! i)")
      case keep: True
      let ?cms' = "if i \<noteq> w then cms[w := cms ! i] else cms"
      from True keep have u: "compactLoop s i w cms = compactLoop s (i + 1) (w + 1) ?cms'"
        by (simp add: compactLoop.simps [of s i w cms])
      have len: "length ?cms' = length cms" by simp
      from "1.prems" True have
        "take (fst (compactLoop s (i + 1) (w + 1) ?cms')) (snd (compactLoop s (i + 1) (w + 1) ?cms'))
          = take (w + 1) ?cms' @ filter ?P (drop (i + 1) ?cms')"
        using keep by (intro "1.IH"(1)) (simp_all)
      moreover have "take (w + 1) ?cms' = take w cms @ [cms ! i]"
      proof (cases "i = w")
        case True
        with \<open>i < length cms\<close> show ?thesis
          by (simp add: take_Suc_conv_app_nth)
      next
        case False
        with "1.prems" True have "w < length cms" by simp
        then have "take (Suc w) (cms[w := cms ! i]) = take w (cms[w := cms ! i]) @ [cms[w := cms ! i] ! w]"
          by (simp add: take_Suc_conv_app_nth)
        with False \<open>w < length cms\<close> show ?thesis by simp
      qed
      moreover have "drop (i + 1) ?cms' = drop (Suc i) cms"
        using "1.prems" by simp
      ultimately show ?thesis
        using keep by (simp add: u d)
    next
      case drop: False
      from True drop have u: "compactLoop s i w cms = compactLoop s (i + 1) w cms"
        by (simp add: compactLoop.simps [of s i w cms])
      from "1.prems" True have
        "take (fst (compactLoop s (i + 1) w cms)) (snd (compactLoop s (i + 1) w cms))
          = take w cms @ filter ?P (drop (i + 1) cms)"
        using drop by (intro "1.IH"(2)) simp_all
      then show ?thesis
        using drop by (simp add: u d)
    qed
  qed
qed

lemma compaction_filter:
  "popLoop (fst (compactLoop s 0 0 cms)) (snd (compactLoop s 0 0 cms))
     = filter (\<lambda>cm. \<not> isPaid (pendingCompensations s cm)) cms"
  using compactLoop_take [of 0 0 cms s]
  by (simp add: popLoop_take)


section \<open>The distribution in closed form\<close>

lemma shareOf_le: "shareOf A T s cm \<le> validAmount s cm"
  by (simp add: shareOf_def proportional_def)

lemma shareOf_invalid: "validAmount s cm = 0 \<Longrightarrow> shareOf A T s cm = 0"
  by (simp add: shareOf_def proportional_def)

lemma distributed_Nil: "distributed prov A T [] s = s"
  by (simp add: distributed_def)

lemma payOne_closed:
  assumes "T \<noteq> 0"
    and "A * validAmount s cm \<le> MAX_UINT256"
    and "shareOf A T s cm \<le> pendingAmount (claims s cm)"
    and "paidAmount (claims s cm) + shareOf A T s cm \<le> MAX_UINT256"
    and "usdc_transfer e (client (claims s cm)) (shareOf A T s cm)"
    and "shareOf A T s cm \<le> poolBalance (providers s prov)"
    and "shareOf A T s cm \<le> totalProviderPools s"
    and "shareOf A T s cm \<le> totalPendingCompensations s"
    and "tc + shareOf A T s cm \<le> MAX_UINT256"
    and "cp + 1 \<le> MAX_UINT256"
  shows "payOne e prov A T cm (s, tc, cp) =
     Inr (distributed prov A T [cm] s, tc + shareOf A T s cm,
          cp + (if shareOf A T s cm > 0 then 1 else 0))"
proof (cases "shareOf A T s cm > 0")
  case False
  then have z: "shareOf A T s cm = 0" by simp
  have d: "distributed prov A T [cm] s = s"
    by (simp add: distributed_def z cong: conj_cong)
  show ?thesis
  proof (cases "\<not> isPaid (pendingCompensations s cm) \<and> amount (pendingCompensations s cm) > 0")
    case False
    then have c: "(\<not> isPaid (pendingCompensations s cm)
        \<and> amount (pendingCompensations s cm) > 0) = False" by simp
    show ?thesis
      unfolding payOne_alt d z c by simp
  next
    case True
    then have va: "validAmount s cm = amount (pendingCompensations s cm)"
      by (simp add: validAmount_def)
    from z have p: "proportional A T (amount (pendingCompensations s cm)) = 0"
      by (simp add: shareOf_def va)
    from True have c: "(\<not> isPaid (pendingCompensations s cm)
        \<and> amount (pendingCompensations s cm) > 0) = True" by simp
    from assms(1,2) show ?thesis
      unfolding payOne_alt d z p va c by (simp split del: if_split)
  qed
next
  case True
  with shareOf_le [of A T s cm] have v: "validAmount s cm > 0" by simp
  then have valid: "\<not> isPaid (pendingCompensations s cm) \<and> amount (pendingCompensations s cm) > 0"
    and va: "validAmount s cm = amount (pendingCompensations s cm)"
    by (auto simp: validAmount_def Let_def split: if_splits)
  have sh: "proportional A T (amount (pendingCompensations s cm)) = shareOf A T s cm"
    by (simp add: shareOf_def va)
  have le: "shareOf A T s cm \<le> amount (pendingCompensations s cm)"
    using shareOf_le [of A T s cm] va by simp
  have pc: "(\<lambda>x. if x \<in> set [cm] \<and> shareOf A T s x > 0 then
            (pendingCompensations s x)\<lparr>
              amount := amount (pendingCompensations s x) - shareOf A T s x,
              isPaid := (if amount (pendingCompensations s x) - shareOf A T s x = 0 then True
                         else isPaid (pendingCompensations s x))\<rparr>
          else pendingCompensations s x)
      = (pendingCompensations s)(cm := (pendingCompensations s cm)\<lparr>
              amount := amount (pendingCompensations s cm) - shareOf A T s cm,
              isPaid := (if amount (pendingCompensations s cm) - shareOf A T s cm = 0 then True
                         else isPaid (pendingCompensations s cm))\<rparr>)"
    using True by (auto simp: fun_eq_iff)
  have cl: "(\<lambda>x. if x \<in> set [cm] \<and> shareOf A T s x > 0 then
            (claims s x)\<lparr>
              paidAmount := paidAmount (claims s x) + shareOf A T s x,
              pendingAmount := pendingAmount (claims s x) - shareOf A T s x\<rparr>
          else claims s x)
      = (claims s)(cm := (claims s cm)\<lparr>
              paidAmount := paidAmount (claims s cm) + shareOf A T s cm,
              pendingAmount := pendingAmount (claims s cm) - shareOf A T s cm\<rparr>)"
    using True by (auto simp: fun_eq_iff)
  have d: "distributed prov A T [cm] s =
     s\<lparr>pendingCompensations := (pendingCompensations s)(cm := (pendingCompensations s cm)\<lparr>
              amount := amount (pendingCompensations s cm) - shareOf A T s cm,
              isPaid := (if amount (pendingCompensations s cm) - shareOf A T s cm = 0 then True
                         else isPaid (pendingCompensations s cm))\<rparr>),
       claims := (claims s)(cm := (claims s cm)\<lparr>
              paidAmount := paidAmount (claims s cm) + shareOf A T s cm,
              pendingAmount := pendingAmount (claims s cm) - shareOf A T s cm\<rparr>),
       providers := (providers s)(prov := (providers s prov)\<lparr>
          poolBalance := poolBalance (providers s prov) - shareOf A T s cm\<rparr>),
       totalProviderPools := totalProviderPools s - shareOf A T s cm,
       totalPendingCompensations := totalPendingCompensations s - shareOf A T s cm,
       token_log := token_log s @ [Transfer (client (claims s cm)) (shareOf A T s cm)]\<rparr>"
    unfolding distributed_def pc cl using True by simp
  from assms(2) have a2: "A * amount (pendingCompensations s cm) \<le> MAX_UINT256"
    by (simp add: va)
  from valid have c: "(\<not> isPaid (pendingCompensations s cm)
        \<and> amount (pendingCompensations s cm) > 0) = True" by simp
  show ?thesis
    unfolding d payOne_alt sh c
    using True assms(1) a2 assms(3-10) le
    by (simp split del: if_split)
qed


lemma distributed_single_other:
  assumes "x \<noteq> cm"
  shows "pendingCompensations (distributed prov A T [cm] s) x = pendingCompensations s x"
    and "claims (distributed prov A T [cm] s) x = claims s x"
    and "validAmount (distributed prov A T [cm] s) x = validAmount s x"
    and "shareOf A T' (distributed prov A T [cm] s) x = shareOf A T' s x"
  using assms by (simp_all add: distributed_def validAmount_def shareOf_def)

lemma distributed_single_totals:
  "poolBalance (providers (distributed prov A T [cm] s) prov)
     = poolBalance (providers s prov) - shareOf A T s cm"
  "totalProviderPools (distributed prov A T [cm] s) = totalProviderPools s - shareOf A T s cm"
  "totalPendingCompensations (distributed prov A T [cm] s)
     = totalPendingCompensations s - shareOf A T s cm"
  by (simp_all add: distributed_def)

lemma distributed_Cons:
  assumes "cm \<notin> set cms"
  shows "distributed prov A T cms (distributed prov A T [cm] s) = distributed prov A T (cm # cms) s"
proof -
  let ?s1 = "distributed prov A T [cm] s"
  have sh: "\<And>x. x \<in> set cms \<Longrightarrow> shareOf A T ?s1 x = shareOf A T s x"
    using assms by (auto intro: distributed_single_other(4))
  then have m: "map (shareOf A T ?s1) cms = map (shareOf A T s) cms"
    by simp
  have f: "filter (\<lambda>x. shareOf A T ?s1 x > 0) cms = filter (\<lambda>x. shareOf A T s x > 0) cms"
    using sh by (auto intro: filter_cong)
  have pc: "pendingCompensations (distributed prov A T cms ?s1)
      = pendingCompensations (distributed prov A T (cm # cms) s)"
  proof
    fix x
    show "pendingCompensations (distributed prov A T cms ?s1) x
      = pendingCompensations (distributed prov A T (cm # cms) s) x"
    proof (cases "x = cm")
      case True
      with assms show ?thesis
        by (simp add: distributed_def)
    next
      case False
      then show ?thesis
        using distributed_single_other [OF False, where prov = prov and A = A and T = T and s = s] sh [of x]
        by (simp add: distributed_def [of prov A T cms] distributed_def [of prov A T "cm # cms"])
    qed
  qed
  have cl: "claims (distributed prov A T cms ?s1) = claims (distributed prov A T (cm # cms) s)"
  proof
    fix x
    show "claims (distributed prov A T cms ?s1) x = claims (distributed prov A T (cm # cms) s) x"
    proof (cases "x = cm")
      case True
      with assms show ?thesis
        by (simp add: distributed_def)
    next
      case False
      then show ?thesis
        using distributed_single_other [OF False, where prov = prov and A = A and T = T and s = s] sh [of x]
        by (simp add: distributed_def [of prov A T cms] distributed_def [of prov A T "cm # cms"])
    qed
  qed
  have pr: "providers (distributed prov A T cms ?s1) = providers (distributed prov A T (cm # cms) s)"
    unfolding distributed_def [of prov A T cms] m
    by (simp add: distributed_def)
  have lg: "token_log (distributed prov A T cms ?s1) = token_log (distributed prov A T (cm # cms) s)"
  proof -
    have "map (\<lambda>x. Transfer (client (claims ?s1 x)) (shareOf A T ?s1 x))
            (filter (\<lambda>x. shareOf A T ?s1 x > 0) cms)
        = map (\<lambda>x. Transfer (client (claims s x)) (shareOf A T s x))
            (filter (\<lambda>x. shareOf A T s x > 0) cms)"
    proof -
      have "\<And>x. x \<in> set cms \<Longrightarrow> claims ?s1 x = claims s x"
        using assms by (auto intro: distributed_single_other(2))
      with sh show ?thesis
        unfolding f by (intro map_cong refl) simp
    qed
    then show ?thesis
      unfolding distributed_def [of prov A T cms]
      by (simp add: distributed_def)
  qed
  have t1: "totalProviderPools (distributed prov A T cms ?s1)
      = totalProviderPools (distributed prov A T (cm # cms) s)"
    and t2: "totalPendingCompensations (distributed prov A T cms ?s1)
      = totalPendingCompensations (distributed prov A T (cm # cms) s)"
    unfolding distributed_def [of prov A T cms] m
    by (simp_all add: distributed_def)
  show ?thesis
    by (rule state.equality) (simp_all add: pc cl pr lg t1 t2, simp_all add: distributed_def)
qed


lemma payLoop_closed:
  assumes "distinct cms" and "T \<noteq> 0"
    and "\<forall>cm\<in>set cms. A * validAmount s cm \<le> MAX_UINT256"
    and "\<forall>cm\<in>set cms. shareOf A T s cm \<le> pendingAmount (claims s cm)"
    and "\<forall>cm\<in>set cms. paidAmount (claims s cm) + shareOf A T s cm \<le> MAX_UINT256"
    and "\<forall>cm\<in>set cms. usdc_transfer e (client (claims s cm)) (shareOf A T s cm)"
    and "sum_list (map (shareOf A T s) cms) \<le> poolBalance (providers s prov)"
    and "sum_list (map (shareOf A T s) cms) \<le> totalProviderPools s"
    and "sum_list (map (shareOf A T s) cms) \<le> totalPendingCompensations s"
    and "tc + sum_list (map (shareOf A T s) cms) \<le> MAX_UINT256"
    and "cp + length cms \<le> MAX_UINT256"
  shows "payLoop e prov A T cms (s, tc, cp) =
     Inr (distributed prov A T cms s, tc + sum_list (map (shareOf A T s) cms),
          cp + length (filter (\<lambda>cm. shareOf A T s cm > 0) cms))"
  using assms
proof (induction cms arbitrary: s tc cp)
  case Nil
  show ?case by (simp add: distributed_Nil)
next
  case (Cons cm cms)
  let ?s1 = "distributed prov A T [cm] s"
  let ?sh = "shareOf A T s cm"
  let ?S = "sum_list (map (shareOf A T s) cms)"
  from Cons.prems(1) have notin: "cm \<notin> set cms" and dist: "distinct cms" by simp_all
  have one: "payOne e prov A T cm (s, tc, cp) =
      Inr (?s1, tc + ?sh, cp + (if ?sh > 0 then 1 else 0))"
    using Cons.prems(2-11) by (intro payOne_closed) simp_all
  have other: "\<And>x. x \<in> set cms \<Longrightarrow> x \<noteq> cm"
    using notin by auto
  have sh: "\<And>x. x \<in> set cms \<Longrightarrow> shareOf A T ?s1 x = shareOf A T s x"
    and va: "\<And>x. x \<in> set cms \<Longrightarrow> validAmount ?s1 x = validAmount s x"
    and cl: "\<And>x. x \<in> set cms \<Longrightarrow> claims ?s1 x = claims s x"
    using other by (simp_all add: distributed_single_other)
  from sh have m: "map (shareOf A T ?s1) cms = map (shareOf A T s) cms" by simp
  from sh have f: "filter (\<lambda>x. shareOf A T ?s1 x > 0) cms = filter (\<lambda>x. shareOf A T s x > 0) cms"
    by (auto intro: filter_cong)
  have rest: "payLoop e prov A T cms (?s1, tc + ?sh, cp + (if ?sh > 0 then 1 else 0)) =
     Inr (distributed prov A T cms ?s1,
          tc + ?sh + sum_list (map (shareOf A T ?s1) cms),
          cp + (if ?sh > 0 then 1 else 0)
            + length (filter (\<lambda>x. shareOf A T ?s1 x > 0) cms))"
  proof (rule Cons.IH [OF dist Cons.prems(2)])
    show "\<forall>x\<in>set cms. A * validAmount ?s1 x \<le> MAX_UINT256"
      using Cons.prems(3) va by simp
    show "\<forall>x\<in>set cms. shareOf A T ?s1 x \<le> pendingAmount (claims ?s1 x)"
      using Cons.prems(4) sh cl by simp
    show "\<forall>x\<in>set cms. paidAmount (claims ?s1 x) + shareOf A T ?s1 x \<le> MAX_UINT256"
      using Cons.prems(5) sh cl by simp
    show "\<forall>x\<in>set cms. usdc_transfer e (client (claims ?s1 x)) (shareOf A T ?s1 x)"
      using Cons.prems(6) sh cl by simp
    show "sum_list (map (shareOf A T ?s1) cms) \<le> poolBalance (providers ?s1 prov)"
      unfolding m distributed_single_totals using Cons.prems(7) by simp
    show "sum_list (map (shareOf A T ?s1) cms) \<le> totalProviderPools ?s1"
      unfolding m distributed_single_totals using Cons.prems(8) by simp
    show "sum_list (map (shareOf A T ?s1) cms) \<le> totalPendingCompensations ?s1"
      unfolding m distributed_single_totals using Cons.prems(9) by simp
    show "tc + ?sh + sum_list (map (shareOf A T ?s1) cms) \<le> MAX_UINT256"
      unfolding m using Cons.prems(10) by simp
    show "cp + (if ?sh > 0 then 1 else 0) + length cms \<le> MAX_UINT256"
      using Cons.prems(11) by simp
  qed
  show ?case
    by (simp add: one rest m f distributed_Cons [OF notin])
qed


lemma sumPending_closed:
  "tp + sumValid s cms \<le> MAX_UINT256 \<Longrightarrow> vc + length cms \<le> MAX_UINT256 \<Longrightarrow>
     sumPending s cms tp vc =
       Inr (tp + sumValid s cms, vc + length (filter (\<lambda>cm. validAmount s cm > 0) cms))"
proof (induction cms arbitrary: tp vc)
  case Nil
  show ?case by (simp add: sumValid_def)
next
  case (Cons cm cms)
  show ?case
  proof (cases "\<not> isPaid (pendingCompensations s cm) \<and> amount (pendingCompensations s cm) > 0")
    case True
    then have va: "validAmount s cm = amount (pendingCompensations s cm)"
      by (simp add: validAmount_def)
    from Cons.prems va have a: "tp + amount (pendingCompensations s cm) + sumValid s cms \<le> MAX_UINT256"
      and b: "vc + 1 + length cms \<le> MAX_UINT256"
      by (simp_all add: sumValid_def)
    from Cons.IH [OF a b] True a b va show ?thesis
      by (simp add: Let_def sumValid_def)
  next
    case False
    then have va: "validAmount s cm = 0"
      by (auto simp: validAmount_def)
    from Cons.prems va have a: "tp + sumValid s cms \<le> MAX_UINT256"
      and b: "vc + length cms \<le> MAX_UINT256"
      by (simp_all add: sumValid_def)
    from Cons.IH [OF a b] False va show ?thesis
      by (auto simp: Let_def sumValid_def)
  qed
qed

lemma process_closed:
  assumes "cms = providerPendingCompensations s prov"
    and "A = poolBalance (providers s prov) - totalLocked (providers s prov)"
    and "T = sumValid s cms"
    and "0 < A" and "0 < T" and "T \<le> MAX_UINT256" and "length cms \<le> MAX_UINT256"
    and "distinct cms"
    and "\<forall>cm\<in>set cms. A * validAmount s cm \<le> MAX_UINT256"
    and "\<forall>cm\<in>set cms. shareOf A T s cm \<le> pendingAmount (claims s cm)"
    and "\<forall>cm\<in>set cms. paidAmount (claims s cm) + shareOf A T s cm \<le> MAX_UINT256"
    and "\<forall>cm\<in>set cms. usdc_transfer e (client (claims s cm)) (shareOf A T s cm)"
    and "sum_list (map (shareOf A T s) cms) \<le> poolBalance (providers s prov)"
    and "sum_list (map (shareOf A T s) cms) \<le> totalProviderPools s"
    and "sum_list (map (shareOf A T s) cms) \<le> totalPendingCompensations s"
    and "sum_list (map (shareOf A T s) cms) \<le> MAX_UINT256"
  shows "processProportionalCompensations e prov s = Inr (processed prov s)"
proof -
  from assms(3,5) have ne: "cms \<noteq> []"
    by (auto simp: sumValid_def)
  from assms(2,4) have av: "totalLocked (providers s prov) < poolBalance (providers s prov)"
    by simp
  have sp: "sumPending s cms 0 0 = Inr (T, length (filter (\<lambda>cm. validAmount s cm > 0) cms))"
    using sumPending_closed [of 0 s cms 0] assms(3,6,7) by simp
  have pl: "payLoop e prov A T cms (s, 0, 0) =
     Inr (distributed prov A T cms s, sum_list (map (shareOf A T s) cms),
          length (filter (\<lambda>cm. shareOf A T s cm > 0) cms))"
    using payLoop_closed [OF assms(8) _ assms(9-15), of 0 0] assms(5,7,16) by simp
  have pp: "providerPendingCompensations (distributed prov A T cms s)
      = providerPendingCompensations s"
    by (simp add: distributed_def)
  show ?thesis
    unfolding processProportionalCompensations_def processed_def Let_def
      assms(1) [symmetric] assms(2) [symmetric] assms(3) [symmetric]
    using ne av assms(4,5)
    by (simp add: sp pl case_prod_beta compaction_filter pp split del: if_split)
qed


section \<open>A distribution over unsettled entries with less available than owed\<close>

lemma sum_list_div_le:
  "sum_list (map (\<lambda>x. (A * f x) div T) xs) \<le> (A * sum_list (map f xs)) div (T::nat)"
proof (induction xs)
  case Nil
  show ?case by simp
next
  case (Cons x xs)
  have "(A * f x) div T + sum_list (map (\<lambda>x. (A * f x) div T) xs)
      \<le> (A * f x) div T + (A * sum_list (map f xs)) div T"
    using Cons.IH by simp
  also have "\<dots> \<le> (A * f x + A * sum_list (map f xs)) div T"
    by (rule div_add_le_nat)
  finally show ?case
    by (simp add: distrib_left)
qed

lemma proportional_below:
  assumes "A \<le> T" and "0 < T"
  shows "proportional A T r = (A * r) div T"
proof -
  have "A * r \<le> T * r"
    using assms(1) by (rule mult_le_mono1)
  then have "(A * r) div T \<le> (T * r) div T"
    by (rule div_le_mono)
  with assms(2) have "(A * r) div T \<le> r" by simp
  then show ?thesis
    by (simp add: proportional_def)
qed

lemma sum_list_same_set:
  assumes "distinct xs" and "distinct ys" and "set ys = set xs"
  shows "sum_list (map f ys) = sum_list (map (f :: 'a \<Rightarrow> nat) xs)"
  using assms by (simp add: sum_list_distinct_conv_sum_set)

lemma unsettled_queue:
  assumes "\<forall>cm\<in>set cms. \<not> isPaid (pendingCompensations s cm) \<and> amount (pendingCompensations s cm) > 0"
  shows "\<forall>cm\<in>set cms. validAmount s cm = amount (pendingCompensations s cm)"
    and "sumValid s cms = sum_list (map (\<lambda>cm. amount (pendingCompensations s cm)) cms)"
proof -
  show v: "\<forall>cm\<in>set cms. validAmount s cm = amount (pendingCompensations s cm)"
    using assms by (simp add: validAmount_def)
  have mm: "map (validAmount s) cms = map (\<lambda>cm. amount (pendingCompensations s cm)) cms"
    using v by (intro map_cong refl) simp
  show "sumValid s cms = sum_list (map (\<lambda>cm. amount (pendingCompensations s cm)) cms)"
    unfolding sumValid_def mm by (rule refl)
qed

lemma proportional_le: "proportional A T r \<le> r" "proportional A T r \<le> (A * r) div T"
  by (simp_all add: proportional_def)

lemma proportional_above:
  assumes "T \<le> A" and "0 < T"
  shows "proportional A T r = r"
proof -
  have "T * r \<le> A * r"
    using assms(1) by (rule mult_le_mono1)
  then have "(T * r) div T \<le> (A * r) div T"
    by (rule div_le_mono)
  with assms(2) have "r \<le> (A * r) div T" by simp
  then show ?thesis
    by (auto simp: proportional_def)
qed

lemma process_unsettled:
  assumes "cms = providerPendingCompensations s prov"
    and "A = poolBalance (providers s prov) - totalLocked (providers s prov)"
    and "T = sum_list (map (\<lambda>cm. amount (pendingCompensations s cm)) cms)"
    and "distinct cms"
    and "\<forall>cm\<in>set cms. \<not> isPaid (pendingCompensations s cm) \<and> amount (pendingCompensations s cm) > 0"
    and "0 < A" and "0 < T" and "A * T \<le> MAX_UINT256"
    and "\<forall>cm\<in>set cms. amount (pendingCompensations s cm) \<le> pendingAmount (claims s cm)"
    and "\<forall>cm\<in>set cms. paidAmount (claims s cm) + pendingAmount (claims s cm) \<le> MAX_UINT256"
    and "poolBalance (providers s prov) \<le> totalProviderPools s"
    and "T \<le> totalPendingCompensations s"
    and "\<forall>cm\<in>set cms. usdc_transfer e (client (claims s cm))
            (proportional A T (amount (pendingCompensations s cm)))"
  shows "processProportionalCompensations e prov s = Inr (processed prov s)"
    and "sumValid s cms = T"
    and "\<forall>cm\<in>set cms. shareOf A T s cm = proportional A T (amount (pendingCompensations s cm))"
    and "sum_list (map (shareOf A T s) cms) \<le> A"
    and "sum_list (map (shareOf A T s) cms) \<le> T"
proof -
  note u = unsettled_queue [OF assms(5)]
  from u(2) assms(3) show sv: "sumValid s cms = T" by simp
  note Tpos = assms(7)
  show sh: "\<forall>cm\<in>set cms. shareOf A T s cm = proportional A T (amount (pendingCompensations s cm))"
    using u(1) by (simp add: shareOf_def)
  have le: "\<forall>cm\<in>set cms. shareOf A T s cm \<le> amount (pendingCompensations s cm)"
    using sh by (simp add: proportional_le)
  have "sum_list (map (shareOf A T s) cms)
      \<le> sum_list (map (\<lambda>cm. (A * amount (pendingCompensations s cm)) div T) cms)"
    using sh by (intro sum_list_mono) (simp add: proportional_le)
  also have "\<dots> \<le> (A * sum_list (map (\<lambda>cm. amount (pendingCompensations s cm)) cms)) div T"
    by (rule sum_list_div_le)
  also have "\<dots> = (A * T) div T"
    unfolding assms(3) [symmetric] ..
  finally show sumA: "sum_list (map (shareOf A T s) cms) \<le> A"
    using Tpos by simp
  have "sum_list (map (shareOf A T s) cms)
      \<le> sum_list (map (\<lambda>cm. amount (pendingCompensations s cm)) cms)"
    using le by (intro sum_list_mono) simp
  then show sumT: "sum_list (map (shareOf A T s) cms) \<le> T"
    unfolding assms(3) [symmetric] .
  have rT: "\<forall>cm\<in>set cms. amount (pendingCompensations s cm) \<le> T"
    unfolding assms(3)
    by (auto intro: member_le_sum_list)
  have T1: "T \<le> A * T" using assms(6) by simp
  from T1 assms(8) have Tmax: "T \<le> MAX_UINT256" by (rule le_trans)
  have A1: "A \<le> A * T" using Tpos by simp
  from A1 assms(8) have Amax: "A \<le> MAX_UINT256" by (rule le_trans)
  have Apool: "A \<le> poolBalance (providers s prov)"
    using assms(2) by simp
  have len: "length cms \<le> T"
  proof -
    have "length cms = sum_list (map (\<lambda>cm. 1) cms)"
      by (induction cms) simp_all
    also have "\<dots> \<le> sum_list (map (\<lambda>cm. amount (pendingCompensations s cm)) cms)"
      using assms(5) by (intro sum_list_mono) (auto simp: Suc_leI)
    finally show ?thesis using assms(3) by simp
  qed
  show "processProportionalCompensations e prov s = Inr (processed prov s)"
  proof (rule process_closed [OF assms(1,2) sv [symmetric] assms(6) Tpos Tmax _ assms(4)])
    show "length cms \<le> MAX_UINT256" using len Tmax by simp
    show "\<forall>cm\<in>set cms. A * validAmount s cm \<le> MAX_UINT256"
    proof
      fix cm assume c: "cm \<in> set cms"
      with rT have "amount (pendingCompensations s cm) \<le> T" by simp
      then have "A * amount (pendingCompensations s cm) \<le> A * T" by (rule mult_le_mono2)
      from this assms(8) have "A * amount (pendingCompensations s cm) \<le> MAX_UINT256"
        by (rule le_trans)
      with u(1) c show "A * validAmount s cm \<le> MAX_UINT256" by simp
    qed
    show "\<forall>cm\<in>set cms. shareOf A T s cm \<le> pendingAmount (claims s cm)"
      using le assms(9) by (metis le_trans)
    show "\<forall>cm\<in>set cms. paidAmount (claims s cm) + shareOf A T s cm \<le> MAX_UINT256"
    proof
      fix cm assume c: "cm \<in> set cms"
      with le assms(9) have "shareOf A T s cm \<le> pendingAmount (claims s cm)"
        by (metis le_trans)
      with assms(10) c show "paidAmount (claims s cm) + shareOf A T s cm \<le> MAX_UINT256"
        by (meson add_left_mono le_trans)
    qed
    show "\<forall>cm\<in>set cms. usdc_transfer e (client (claims s cm)) (shareOf A T s cm)"
      using assms(13) sh by simp
    show "sum_list (map (shareOf A T s) cms) \<le> poolBalance (providers s prov)"
      using sumA Apool by simp
    show "sum_list (map (shareOf A T s) cms) \<le> totalProviderPools s"
      using sumA Apool assms(11) by simp
    show "sum_list (map (shareOf A T s) cms) \<le> totalPendingCompensations s"
      using sumT assms(12) by simp
    show "sum_list (map (shareOf A T s) cms) \<le> MAX_UINT256"
      using sumA Amax by simp
  qed
qed

lemma shareOf_queue_update:
  "shareOf A T (s\<lparr>providerPendingCompensations := q\<rparr>) cm = shareOf A T s cm"
  by (simp add: shareOf_def validAmount_def)

lemma processed_fields:
  assumes "cms = providerPendingCompensations s prov"
    and "A = poolBalance (providers s prov) - totalLocked (providers s prov)"
    and "T = sumValid s cms"
  shows "claims (processed prov s) = (\<lambda>cm.
          if cm \<in> set cms \<and> shareOf A T s cm > 0 then
            (claims s cm)\<lparr>
              paidAmount := paidAmount (claims s cm) + shareOf A T s cm,
              pendingAmount := pendingAmount (claims s cm) - shareOf A T s cm\<rparr>
          else claims s cm)"
    and "pendingCompensations (processed prov s) = (\<lambda>cm.
          if cm \<in> set cms \<and> shareOf A T s cm > 0 then
            (pendingCompensations s cm)\<lparr>
              amount := amount (pendingCompensations s cm) - shareOf A T s cm,
              isPaid := (if amount (pendingCompensations s cm) - shareOf A T s cm = 0 then True
                         else isPaid (pendingCompensations s cm))\<rparr>
          else pendingCompensations s cm)"
    and "providers (processed prov s) = (providers s)(prov := (providers s prov)\<lparr>
          poolBalance := poolBalance (providers s prov) - sum_list (map (shareOf A T s) cms)\<rparr>)"
    and "totalProviderPools (processed prov s)
          = totalProviderPools s - sum_list (map (shareOf A T s) cms)"
    and "totalPendingCompensations (processed prov s)
          = totalPendingCompensations s - sum_list (map (shareOf A T s) cms)"
    and "token_log (processed prov s) = token_log s @
         map (\<lambda>cm. Transfer (client (claims s cm)) (shareOf A T s cm))
           (filter (\<lambda>cm. shareOf A T s cm > 0) cms)"
    and "emergencyPool (processed prov s) = emergencyPool s"
    and "platformInsuranceFund (processed prov s) = platformInsuranceFund s"
  unfolding processed_def Let_def assms(1) [symmetric] assms(2) [symmetric] assms(3) [symmetric]
  by (simp_all add: distributed_def)


section \<open>When a distribution changes nothing\<close>

lemma process_noop:
  assumes "providerPendingCompensations s prov = []
    \<or> poolBalance (providers s prov) \<le> totalLocked (providers s prov)"
  shows "processProportionalCompensations e prov s = Inr s"
  using assms
  by (cases "providerPendingCompensations s prov = []")
     (simp_all add: processProportionalCompensations_def Let_def)

lemma processed_queue:
  assumes "cms = providerPendingCompensations s prov"
    and "A = poolBalance (providers s prov) - totalLocked (providers s prov)"
    and "T = sumValid s cms"
  shows "providerPendingCompensations (processed prov s) prov
    = filter (\<lambda>cm. \<not> isPaid (pendingCompensations (processed prov s) cm)) cms"
    and "totalLocked (providers (processed prov s) prov) = totalLocked (providers s prov)"
  unfolding processed_def Let_def assms(1) [symmetric] assms(2) [symmetric] assms(3) [symmetric]
  by (simp_all add: distributed_def)

section \<open>Disputes and repeated executions\<close>

lemma disputeClaim_effect:
  assumes "disputeClaim e cm evidence s = Inr s'"
  shows "status (claims s' cm) = DISPUTED"
    and "token_log s' = token_log s"
    and "poolBalance (providers s' p) = poolBalance (providers s p)"
    and "emergencyPool s' = emergencyPool s"
    and "platformInsuranceFund s' = platformInsuranceFund s"
    and "paidAmount (claims s' x) = paidAmount (claims s x)"
    and "pendingAmount (claims s' x) = pendingAmount (claims s x)"
    and "requestedAmount (claims s' x) = requestedAmount (claims s x)"
    and "pendingCompensations s' = pendingCompensations s"
    and "providerPendingCompensations s' = providerPendingCompensations s"
    and "totalLocked (providers s' (msg_sender e)) =
           totalLocked (providers s (msg_sender e))
           - (if paidAmount (claims s cm) > 0
              then min (requiredFor (paidAmount (claims s cm)))
                     (totalLocked (providers s (msg_sender e)))
              else 0)"
  unfolding disputeClaim_Inr(5) [OF assms]
  by (simp_all add: min_def)

lemma executeClaim_settled_once:
  assumes "executeClaim e cm s = Inr s'" and "pendingAmount (claims s cm) = 0"
  shows "executeClaim e2 cm s' = Inl (Revert ''Invalid claim status'')"
proof -
  note r = executeClaim_Inr [OF assms(1)]
  have st: "status (claims s' cm) = EXECUTED"
    and ia: "initiatedAt (claims s' cm) = initiatedAt (claims s cm)"
    unfolding r(4) using assms(2) by (simp_all add: finished_def)
  from r(1) ia have "initiatedAt (claims s' cm) > 0" by simp
  with st show ?thesis
    unfolding executeClaim_alt by simp
qed

lemma executeClaim_partial_stays_open:
  assumes "executeClaim e cm s = Inr s'" and "pendingAmount (claims s cm) \<noteq> 0"
  shows "status (claims s' cm) = PARTIAL"
    and "paidAmount (claims s' cm) = paidAmount (claims s cm)"
    and "initiatedAt (claims s' cm) = initiatedAt (claims s cm)"
    and "disputeDeadline (claims s' cm) = disputeDeadline (claims s cm)"
  unfolding executeClaim_Inr(4) [OF assms(1)]
  using assms(2) by (simp_all add: finished_def)

section \<open>Well-formed storage\<close>
































section \<open>Successive claims and successive distributions\<close>





text \<open>Two cases in which a second distribution finds nothing to do: the first one has
  settled every entry, or its shares add up to all that was available.\<close>

lemma distribution_settles_or_exhausts:
  assumes "cms = providerPendingCompensations s prov"
    and "A = poolBalance (providers s prov) - totalLocked (providers s prov)"
    and "T = sum_list (map (\<lambda>cm. amount (pendingCompensations s cm)) cms)"
    and "distinct cms"
    and "\<forall>cm\<in>set cms. \<not> isPaid (pendingCompensations s cm) \<and> amount (pendingCompensations s cm) > 0"
    and "0 < A" and "0 < T" and "A * T \<le> MAX_UINT256"
    and "\<forall>cm\<in>set cms. amount (pendingCompensations s cm) \<le> pendingAmount (claims s cm)"
    and "\<forall>cm\<in>set cms. paidAmount (claims s cm) + pendingAmount (claims s cm) \<le> MAX_UINT256"
    and "poolBalance (providers s prov) \<le> totalProviderPools s"
    and "T \<le> totalPendingCompensations s"
    and "\<forall>cm\<in>set cms. usdc_transfer e (client (claims s cm))
            (proportional A T (amount (pendingCompensations s cm)))"
    and "T \<le> A
      \<or> sum_list (map (\<lambda>cm. proportional A T (amount (pendingCompensations s cm))) cms) = A"
  shows "(providerPendingCompensations s0 p0 = []
            \<or> poolBalance (providers s0 p0) \<le> totalLocked (providers s0 p0)
          \<longrightarrow> processProportionalCompensations e0 p0 s0 = Inr s0)
    \<and> (\<exists>s1. processProportionalCompensations e prov s = Inr s1
           \<and> processProportionalCompensations e2 prov s1 = Inr s1)"
proof
  show "providerPendingCompensations s0 p0 = []
            \<or> poolBalance (providers s0 p0) \<le> totalLocked (providers s0 p0)
          \<longrightarrow> processProportionalCompensations e0 p0 s0 = Inr s0"
    by (auto intro: process_noop)
next
  note p = process_unsettled [OF assms(1-13)]
  note f = processed_fields [OF assms(1,2) p(2) [symmetric]]
  note q = processed_queue [OF assms(1,2) p(2) [symmetric]]
  have m: "map (shareOf A T s) cms
      = map (\<lambda>cm. proportional A T (amount (pendingCompensations s cm))) cms"
    using p(3) by simp
  have "providerPendingCompensations (processed prov s) prov = []
    \<or> poolBalance (providers (processed prov s) prov)
        \<le> totalLocked (providers (processed prov s) prov)"
    using assms(14)
  proof
    assume TA: "T \<le> A"
    have "\<forall>cm\<in>set cms. isPaid (pendingCompensations (processed prov s) cm)"
    proof
      fix cm assume c: "cm \<in> set cms"
      with p(3) have "shareOf A T s cm = amount (pendingCompensations s cm)"
        by (simp add: proportional_above [OF TA assms(7)])
      moreover from assms(5) c have "amount (pendingCompensations s cm) > 0" by simp
      ultimately show "isPaid (pendingCompensations (processed prov s) cm)"
        using c by (simp add: f(2))
    qed
    then have "filter (\<lambda>cm. \<not> isPaid (pendingCompensations (processed prov s) cm)) cms = []"
      by (simp add: filter_empty_conv)
    then show ?thesis
      by (simp add: q(1))
  next
    assume "sum_list (map (\<lambda>cm. proportional A T (amount (pendingCompensations s cm))) cms) = A"
    then have "sum_list (map (shareOf A T s) cms) = A"
      by (simp add: m)
    then have "poolBalance (providers (processed prov s) prov) = poolBalance (providers s prov) - A"
      by (simp add: f(3))
    moreover have "poolBalance (providers s prov)
        - (poolBalance (providers s prov) - totalLocked (providers s prov))
        \<le> totalLocked (providers s prov)"
      by arith
    ultimately have "poolBalance (providers (processed prov s) prov)
        \<le> totalLocked (providers (processed prov s) prov)"
      unfolding q(2) assms(2) by simp
    then show ?thesis ..
  qed
  then have "processProportionalCompensations e2 prov (processed prov s) = Inr (processed prov s)"
    by (rule process_noop)
  with p(1) show "\<exists>s1. processProportionalCompensations e prov s = Inr s1
           \<and> processProportionalCompensations e2 prov s1 = Inr s1"
    by blast
qed


section \<open>The claims\<close>

lemmas eval_defs =
  registerOrReactivate_def depositAdditional_def withdraw_def withdrawAllAndDeactivate_def
  initiateClaim_def executeClaim_def disputeClaim_def
  processProportionalCompensations_def payOne_def recordPendingCompensation_def
  init_def callAt_def Let_def zeroProvider_def zeroClaim_def zeroCompensation_def
  MIN_POOL_BALANCE_def MAX_POOL_BALANCE_def MAX_UINT256_def MIN_CLAIM_AMOUNT_def
  MAX_CLAIM_AMOUNT_def PENALTY_RATE_def PLATFORM_FEE_RATE_def getDisputePeriod_def

text \<open>
  \<^bold>\<open>C1.\<close> Starting from the storage after deployment, after every call that succeeds
  (the provider and claim functions, the admin functions, and a distribution on its own)
  every provider record has \<open>poolBalance \<ge> 0\<close> and \<open>totalLocked \<le> poolBalance\<close>. The
  balances are unsigned and every subtraction is checked, so the first half holds by
  the type of the field; the second half is the invariant \<open>locked_le_pool\<close>.
\<close>

theorem C1_pool_covers_locks:
  assumes "reachable s"
  shows "0 \<le> poolBalance (providers s p) \<and> totalLocked (providers s p) \<le> poolBalance (providers s p)"
  using reachable_locked_le_pool [OF assms]
  by (simp add: locked_le_pool_def)

theorem C1_pool_covers_locks_witness:
  "case run [(callAt 5 100, RegisterOrReactivate 10000000),
             (callAt 2 200, InitiateClaim 7 5 4000000 NOT_DELIVERED)] (init 9) of
     Inl err \<Rightarrow> False
   | Inr s \<Rightarrow> reachable s \<and> poolBalance (providers s 5) = 10000000
       \<and> totalLocked (providers s 5) = 4440000
       \<and> totalLocked (providers s 5) \<le> poolBalance (providers s 5)"
proof -
  obtain s where r: "run [(callAt 5 100, RegisterOrReactivate 10000000),
             (callAt 2 200, InitiateClaim 7 5 4000000 NOT_DELIVERED)] (init 9) = Inr s"
    by (simp add: eval_defs)
  have "reachable s"
    by (rule run_reachable [OF reachable_init r]) simp
  moreover from C1_pool_covers_locks [OF this, of 5]
  have "totalLocked (providers s 5) \<le> poolBalance (providers s 5)" by simp
  moreover from r have "poolBalance (providers s 5) = 10000000 \<and> totalLocked (providers s 5) = 4440000"
    by (auto simp add: eval_defs)
  ultimately show ?thesis
    unfolding r by simp
qed

text \<open>
  \<^bold>\<open>C2.\<close> In every reachable storage, every claim that exists (\<open>initiatedAt > 0\<close>) has
  \<open>paidAmount + pendingAmount = requestedAmount\<close>: \<open>initiateClaim\<close> establishes it, and
  \<open>executeClaim\<close>, \<open>disputeClaim\<close> and the distribution preserve it.
\<close>

theorem C2_paid_plus_pending:
  assumes "reachable s" and "initiatedAt (claims s cm) > 0"
  shows "paidAmount (claims s cm) + pendingAmount (claims s cm) = requestedAmount (claims s cm)"
  using reachable_claim_sum [OF assms(1)]
  by (simp add: claim_sum_def)

theorem C2_paid_plus_pending_witness:
  "case run [(callAt 5 100, RegisterOrReactivate 10000000),
             (callAt 2 200, InitiateClaim 7 5 9000000 NOT_DELIVERED),
             (callAt 3 300, InitiateClaim 8 5 1000000 SERVICE_TIMEOUT)] (init 9) of
     Inl err \<Rightarrow> False
   | Inr s \<Rightarrow> reachable s \<and> initiatedAt (claims s 8) = 300
       \<and> paidAmount (claims s 8) = 10000 \<and> pendingAmount (claims s 8) = 990000
       \<and> paidAmount (claims s 8) + pendingAmount (claims s 8) = requestedAmount (claims s 8)"
proof -
  obtain s where r: "run [(callAt 5 100, RegisterOrReactivate 10000000),
             (callAt 2 200, InitiateClaim 7 5 9000000 NOT_DELIVERED),
             (callAt 3 300, InitiateClaim 8 5 1000000 SERVICE_TIMEOUT)] (init 9) = Inr s"
    by (simp add: eval_defs)
  have re: "reachable s"
    by (rule run_reachable [OF reachable_init r]) simp
  from r have v: "initiatedAt (claims s 8) = 300 \<and> paidAmount (claims s 8) = 10000
      \<and> pendingAmount (claims s 8) = 990000"
    by (auto simp add: eval_defs)
  then have "initiatedAt (claims s 8) > 0" by simp
  from C2_paid_plus_pending [OF re this] re v show ?thesis
    unfolding r by simp
qed

text \<open>
  \<^bold>\<open>C3.\<close> \<open>initiateClaim\<close> with an amount within the claim bounds, a fresh commitment
  and an active provider, where \<open>available\<close> is \<open>poolBalance - totalLocked\<close> (floored at
  zero, as the truncated subtraction of the naturals is) plus \<open>emergencyPool\<close> plus
  \<open>platformInsuranceFund\<close>: the call succeeds, and
  \<^item> if \<open>available \<ge> amt\<close>, the claim is scheduled in full, nothing is pending, the
    status is \<open>INITIATED\<close> and no compensation entry is recorded;
  \<^item> if \<open>0 < available < amt\<close>, exactly \<open>available\<close> is scheduled, the rest is
    pending, an entry is recorded and the status is \<open>PARTIAL\<close>;
  \<^item> if \<open>available = 0\<close>, nothing is scheduled, all of \<open>amt\<close> is pending, an entry is
    recorded and the status is \<open>PARTIAL\<close>.
  The five hypotheses after the first four say that the values at hand fit
  \<^verbatim>\<open>uint256\<close> with room for this call: otherwise the checked arithmetic aborts it.
\<close>

theorem C3_initiateClaim_schedule:
  assumes "MIN_CLAIM_AMOUNT \<le> amt" and "amt \<le> MAX_CLAIM_AMOUNT"
    and "initiatedAt (claims s cm) = 0" and "isActive (providers s prov)"
    and "poolBalance (providers s prov) \<le> MAX_UINT256"
    and "totalLocked (providers s prov) \<le> MAX_UINT256"
    and "available \<le> MAX_UINT256"
    and "totalPendingCompensations s + amt \<le> MAX_UINT256"
    and "block_timestamp e + getDisputePeriod amt \<le> MAX_UINT256"
    and "totalClaimsInitiated s < MAX_UINT256"
    and "available = (poolBalance (providers s prov) - totalLocked (providers s prov))
           + emergencyPool s + platformInsuranceFund s"
  shows "\<exists>s'. initiateClaim e cm prov amt rsn s = Inr s'
    \<and> requestedAmount (claims s' cm) = amt
    \<and> (available \<ge> amt \<longrightarrow>
          paidAmount (claims s' cm) = amt \<and> pendingAmount (claims s' cm) = 0
          \<and> status (claims s' cm) = INITIATED
          \<and> pendingCompensations s' = pendingCompensations s
          \<and> providerPendingCompensations s' = providerPendingCompensations s)
    \<and> (0 < available \<and> available < amt \<longrightarrow>
          paidAmount (claims s' cm) = available
          \<and> pendingAmount (claims s' cm) = amt - available
          \<and> status (claims s' cm) = PARTIAL
          \<and> pendingCompensations s' cm =
               \<lparr>comp_commitment = cm, comp_client = msg_sender e, amount = amt - available,
                createdAt = block_timestamp e, isPaid = False\<rparr>
          \<and> providerPendingCompensations s' prov = providerPendingCompensations s prov @ [cm])
    \<and> (available = 0 \<longrightarrow>
          paidAmount (claims s' cm) = 0 \<and> pendingAmount (claims s' cm) = amt
          \<and> status (claims s' cm) = PARTIAL
          \<and> pendingCompensations s' cm =
               \<lparr>comp_commitment = cm, comp_client = msg_sender e, amount = amt,
                createdAt = block_timestamp e, isPaid = False\<rparr>
          \<and> providerPendingCompensations s' prov = providerPendingCompensations s prov @ [cm])"
proof -
  have av: "totalAvailableOf s prov = available"
    using assms(11) by (simp add: totalAvailableOf_def availableOf_def)
  with assms(7) have "totalAvailableOf s prov \<le> MAX_UINT256" by simp
  note ok = initiateClaim_succeeds [OF assms(1-6) this assms(8-10)]
  from assms(1) have pos: "0 < amt"
    by (simp add: MIN_CLAIM_AMOUNT_def)
  show ?thesis
    using pos
    by (simp add: ok newClaim_def deferred_def scheduledFor_def pendingFor_def av)
qed

theorem C3_initiateClaim_schedule_witness:
  "(case run [(callAt 5 100, RegisterOrReactivate 10000000)] (init 9) of
     Inl err \<Rightarrow> False
   | Inr s \<Rightarrow>
       (\<exists>s'. initiateClaim (callAt 2 200) 7 5 9000000 NOT_DELIVERED s = Inr s'
          \<and> paidAmount (claims s' 7) = 9000000 \<and> pendingAmount (claims s' 7) = 0
          \<and> status (claims s' 7) = INITIATED
          \<and> providerPendingCompensations s' 5 = []))
   \<and> (case run [(callAt 5 100, RegisterOrReactivate 10000000),
             (callAt 2 200, InitiateClaim 7 5 9000000 NOT_DELIVERED)] (init 9) of
     Inl err \<Rightarrow> False
   | Inr s \<Rightarrow>
       (\<exists>s'. initiateClaim (callAt 3 300) 8 5 1000000 SERVICE_TIMEOUT s = Inr s'
          \<and> paidAmount (claims s' 8) = 10000 \<and> pendingAmount (claims s' 8) = 990000
          \<and> status (claims s' 8) = PARTIAL
          \<and> providerPendingCompensations s' 5 = [8]))
   \<and> (case run [(callAt 5 100, RegisterOrReactivate 10000000),
             (callAt 2 200, InitiateClaim 7 5 9000000 NOT_DELIVERED),
             (callAt 3 300, InitiateClaim 8 5 1000000 SERVICE_TIMEOUT)] (init 9) of
     Inl err \<Rightarrow> False
   | Inr s \<Rightarrow>
       (\<exists>s'. initiateClaim (callAt 4 400) 9 5 2000000 PARTIAL_DELIVERY s = Inr s'
          \<and> paidAmount (claims s' 9) = 0 \<and> pendingAmount (claims s' 9) = 2000000
          \<and> status (claims s' 9) = PARTIAL
          \<and> providerPendingCompensations s' 5 = [8, 9]))"
proof (intro conjI)
  obtain s where r: "run [(callAt 5 100, RegisterOrReactivate 10000000)] (init 9) = Inr s"
    by (simp add: eval_defs)
  have "case run [(callAt 5 100, RegisterOrReactivate 10000000)] (init 9) of
      Inl err \<Rightarrow> True
    | Inr s \<Rightarrow> initiatedAt (claims s 7) = 0 \<and> isActive (providers s 5)
        \<and> poolBalance (providers s 5) = 10000000 \<and> totalLocked (providers s 5) = 0
        \<and> emergencyPool s = 0 \<and> platformInsuranceFund s = 0
        \<and> totalPendingCompensations s = 0 \<and> totalClaimsInitiated s = 0
        \<and> providerPendingCompensations s 5 = []"
    by (simp add: eval_defs)
  then have v: "initiatedAt (claims s 7) = 0" "isActive (providers s 5)"
      "poolBalance (providers s 5) = 10000000" "totalLocked (providers s 5) = 0"
      "emergencyPool s = 0" "platformInsuranceFund s = 0"
      "totalPendingCompensations s = 0" "totalClaimsInitiated s = 0"
      "providerPendingCompensations s 5 = []"
    unfolding r by simp_all
  have hs: "MIN_CLAIM_AMOUNT \<le> 9000000" "9000000 \<le> MAX_CLAIM_AMOUNT"
      "initiatedAt (claims s 7) = 0" "isActive (providers s 5)"
      "poolBalance (providers s 5) \<le> MAX_UINT256" "totalLocked (providers s 5) \<le> MAX_UINT256"
      "(10000000::nat) \<le> MAX_UINT256" "totalPendingCompensations s + 9000000 \<le> MAX_UINT256"
      "block_timestamp (callAt 2 200) + getDisputePeriod 9000000 \<le> MAX_UINT256"
      "totalClaimsInitiated s < MAX_UINT256"
      "(10000000::nat) = (poolBalance (providers s 5) - totalLocked (providers s 5))
           + emergencyPool s + platformInsuranceFund s"
    by (simp_all add: v MIN_CLAIM_AMOUNT_def MAX_CLAIM_AMOUNT_def MAX_UINT256_def
          getDisputePeriod_def callAt_def)
  from C3_initiateClaim_schedule [where rsn = NOT_DELIVERED, OF hs]
  have "\<exists>s'. initiateClaim (callAt 2 200) 7 5 9000000 NOT_DELIVERED s = Inr s'
          \<and> paidAmount (claims s' 7) = 9000000 \<and> pendingAmount (claims s' 7) = 0
          \<and> status (claims s' 7) = INITIATED
          \<and> providerPendingCompensations s' 5 = []"
    by (auto simp: v callAt_def)
  then show "case run [(callAt 5 100, RegisterOrReactivate 10000000)] (init 9) of
     Inl err \<Rightarrow> False
   | Inr s \<Rightarrow>
       (\<exists>s'. initiateClaim (callAt 2 200) 7 5 9000000 NOT_DELIVERED s = Inr s'
          \<and> paidAmount (claims s' 7) = 9000000 \<and> pendingAmount (claims s' 7) = 0
          \<and> status (claims s' 7) = INITIATED
          \<and> providerPendingCompensations s' 5 = [])"
    unfolding r by simp
next
  obtain s where r: "run [(callAt 5 100, RegisterOrReactivate 10000000),
             (callAt 2 200, InitiateClaim 7 5 9000000 NOT_DELIVERED)] (init 9) = Inr s"
    by (simp add: eval_defs)
  have "case run [(callAt 5 100, RegisterOrReactivate 10000000),
             (callAt 2 200, InitiateClaim 7 5 9000000 NOT_DELIVERED)] (init 9) of
      Inl err \<Rightarrow> True
    | Inr s \<Rightarrow> initiatedAt (claims s 8) = 0 \<and> isActive (providers s 5)
        \<and> poolBalance (providers s 5) = 10000000 \<and> totalLocked (providers s 5) = 9990000
        \<and> emergencyPool s = 0 \<and> platformInsuranceFund s = 0
        \<and> totalPendingCompensations s = 0 \<and> totalClaimsInitiated s = 1
        \<and> providerPendingCompensations s 5 = []"
    by (simp add: eval_defs)
  then have v: "initiatedAt (claims s 8) = 0" "isActive (providers s 5)"
      "poolBalance (providers s 5) = 10000000" "totalLocked (providers s 5) = 9990000"
      "emergencyPool s = 0" "platformInsuranceFund s = 0"
      "totalPendingCompensations s = 0" "totalClaimsInitiated s = 1"
      "providerPendingCompensations s 5 = []"
    unfolding r by simp_all
  have hs: "MIN_CLAIM_AMOUNT \<le> 1000000" "1000000 \<le> MAX_CLAIM_AMOUNT"
      "initiatedAt (claims s 8) = 0" "isActive (providers s 5)"
      "poolBalance (providers s 5) \<le> MAX_UINT256" "totalLocked (providers s 5) \<le> MAX_UINT256"
      "(10000::nat) \<le> MAX_UINT256" "totalPendingCompensations s + 1000000 \<le> MAX_UINT256"
      "block_timestamp (callAt 3 300) + getDisputePeriod 1000000 \<le> MAX_UINT256"
      "totalClaimsInitiated s < MAX_UINT256"
      "(10000::nat) = (poolBalance (providers s 5) - totalLocked (providers s 5))
           + emergencyPool s + platformInsuranceFund s"
    by (simp_all add: v MIN_CLAIM_AMOUNT_def MAX_CLAIM_AMOUNT_def MAX_UINT256_def
          getDisputePeriod_def callAt_def)
  from C3_initiateClaim_schedule [where rsn = SERVICE_TIMEOUT, OF hs]
  have "\<exists>s'. initiateClaim (callAt 3 300) 8 5 1000000 SERVICE_TIMEOUT s = Inr s'
          \<and> paidAmount (claims s' 8) = 10000 \<and> pendingAmount (claims s' 8) = 990000
          \<and> status (claims s' 8) = PARTIAL
          \<and> providerPendingCompensations s' 5 = [8]"
    by (auto simp: v callAt_def)
  then show "case run [(callAt 5 100, RegisterOrReactivate 10000000),
             (callAt 2 200, InitiateClaim 7 5 9000000 NOT_DELIVERED)] (init 9) of
     Inl err \<Rightarrow> False
   | Inr s \<Rightarrow>
       (\<exists>s'. initiateClaim (callAt 3 300) 8 5 1000000 SERVICE_TIMEOUT s = Inr s'
          \<and> paidAmount (claims s' 8) = 10000 \<and> pendingAmount (claims s' 8) = 990000
          \<and> status (claims s' 8) = PARTIAL
          \<and> providerPendingCompensations s' 5 = [8])"
    unfolding r by simp
next
  obtain s where r: "run [(callAt 5 100, RegisterOrReactivate 10000000),
             (callAt 2 200, InitiateClaim 7 5 9000000 NOT_DELIVERED),
             (callAt 3 300, InitiateClaim 8 5 1000000 SERVICE_TIMEOUT)] (init 9) = Inr s"
    by (simp add: eval_defs)
  have "case run [(callAt 5 100, RegisterOrReactivate 10000000),
             (callAt 2 200, InitiateClaim 7 5 9000000 NOT_DELIVERED),
             (callAt 3 300, InitiateClaim 8 5 1000000 SERVICE_TIMEOUT)] (init 9) of
      Inl err \<Rightarrow> True
    | Inr s \<Rightarrow> initiatedAt (claims s 9) = 0 \<and> isActive (providers s 5)
        \<and> poolBalance (providers s 5) = 10000000 \<and> totalLocked (providers s 5) = 10000000
        \<and> emergencyPool s = 0 \<and> platformInsuranceFund s = 0
        \<and> totalPendingCompensations s = 990000 \<and> totalClaimsInitiated s = 2
        \<and> providerPendingCompensations s 5 = [8]"
    by (simp add: eval_defs)
  then have v: "initiatedAt (claims s 9) = 0" "isActive (providers s 5)"
      "poolBalance (providers s 5) = 10000000" "totalLocked (providers s 5) = 10000000"
      "emergencyPool s = 0" "platformInsuranceFund s = 0"
      "totalPendingCompensations s = 990000" "totalClaimsInitiated s = 2"
      "providerPendingCompensations s 5 = [8]"
    unfolding r by simp_all
  have hs: "MIN_CLAIM_AMOUNT \<le> 2000000" "2000000 \<le> MAX_CLAIM_AMOUNT"
      "initiatedAt (claims s 9) = 0" "isActive (providers s 5)"
      "poolBalance (providers s 5) \<le> MAX_UINT256" "totalLocked (providers s 5) \<le> MAX_UINT256"
      "(0::nat) \<le> MAX_UINT256" "totalPendingCompensations s + 2000000 \<le> MAX_UINT256"
      "block_timestamp (callAt 4 400) + getDisputePeriod 2000000 \<le> MAX_UINT256"
      "totalClaimsInitiated s < MAX_UINT256"
      "(0::nat) = (poolBalance (providers s 5) - totalLocked (providers s 5))
           + emergencyPool s + platformInsuranceFund s"
    by (simp_all add: v MIN_CLAIM_AMOUNT_def MAX_CLAIM_AMOUNT_def MAX_UINT256_def
          getDisputePeriod_def callAt_def)
  from C3_initiateClaim_schedule [where rsn = PARTIAL_DELIVERY, OF hs]
  have "\<exists>s'. initiateClaim (callAt 4 400) 9 5 2000000 PARTIAL_DELIVERY s = Inr s'
          \<and> paidAmount (claims s' 9) = 0 \<and> pendingAmount (claims s' 9) = 2000000
          \<and> status (claims s' 9) = PARTIAL
          \<and> providerPendingCompensations s' 5 = [8, 9]"
    by (auto simp: v callAt_def)
  then show "case run [(callAt 5 100, RegisterOrReactivate 10000000),
             (callAt 2 200, InitiateClaim 7 5 9000000 NOT_DELIVERED),
             (callAt 3 300, InitiateClaim 8 5 1000000 SERVICE_TIMEOUT)] (init 9) of
     Inl err \<Rightarrow> False
   | Inr s \<Rightarrow>
       (\<exists>s'. initiateClaim (callAt 4 400) 9 5 2000000 PARTIAL_DELIVERY s = Inr s'
          \<and> paidAmount (claims s' 9) = 0 \<and> pendingAmount (claims s' 9) = 2000000
          \<and> status (claims s' 9) = PARTIAL
          \<and> providerPendingCompensations s' 5 = [8, 9])"
    unfolding r by simp
qed

text \<open>
  \<^bold>\<open>C4.\<close> One distribution for a provider whose queue \<open>cms\<close> holds unsettled entries
  with remainders \<open>r cm = amount (pendingCompensations s cm)\<close> summing to \<open>T\<close>, when the
  available funds \<open>A = poolBalance - totalLocked\<close> satisfy \<open>0 < A < T\<close>. The distribution
  succeeds; every entry is paid \<open>A * r cm div T\<close>, which is also the smaller of that and
  \<open>r cm\<close>; the payments sum to at most \<open>A\<close> and leave the pool; and a queue holding the
  same entries in another order gives every claim, every entry, the pool and the totals
  the same values. The hypotheses on the storage say that the queue has no entry twice,
  that an entry's remainder is pending on its claim, that the provider's balance is part
  of \<open>totalProviderPools\<close> and the remainders part of \<open>totalPendingCompensations\<close>, that
  \<open>A * T\<close> and the claims' amounts fit \<^verbatim>\<open>uint256\<close>, and that the token accepts the
  transfers. All but the bound on \<open>A * T\<close> and the token's answers hold in every
  well-formed storage (\<open>wellformed_queue\<close>), and the storage is well-formed after any
  calls at positive block timestamps (\<open>run_wellformed\<close>), also when a deposit has just
  been credited (\<open>wellformed_credited\<close>).
\<close>

theorem C4_proportional_shares:
  assumes "cms = providerPendingCompensations s prov"
    and "A = poolBalance (providers s prov) - totalLocked (providers s prov)"
    and "T = sum_list (map (\<lambda>cm. amount (pendingCompensations s cm)) cms)"
    and "distinct cms"
    and "\<forall>cm\<in>set cms. \<not> isPaid (pendingCompensations s cm) \<and> amount (pendingCompensations s cm) > 0"
    and "0 < A" and "A < T" and "A * T \<le> MAX_UINT256"
    and "\<forall>cm\<in>set cms. amount (pendingCompensations s cm) \<le> pendingAmount (claims s cm)"
    and "\<forall>cm\<in>set cms. paidAmount (claims s cm) + pendingAmount (claims s cm) \<le> MAX_UINT256"
    and "poolBalance (providers s prov) \<le> totalProviderPools s"
    and "T \<le> totalPendingCompensations s"
    and "\<forall>cm\<in>set cms. usdc_transfer e (client (claims s cm))
            ((A * amount (pendingCompensations s cm)) div T)"
  shows "\<exists>s'. processProportionalCompensations e prov s = Inr s'
    \<and> (\<forall>cm\<in>set cms.
          min (amount (pendingCompensations s cm)) ((A * amount (pendingCompensations s cm)) div T)
            = (A * amount (pendingCompensations s cm)) div T
          \<and> amount (pendingCompensations s' cm)
            = amount (pendingCompensations s cm) - (A * amount (pendingCompensations s cm)) div T
          \<and> paidAmount (claims s' cm)
            = paidAmount (claims s cm) + (A * amount (pendingCompensations s cm)) div T
          \<and> pendingAmount (claims s' cm)
            = pendingAmount (claims s cm) - (A * amount (pendingCompensations s cm)) div T)
    \<and> sum_list (map (\<lambda>cm. (A * amount (pendingCompensations s cm)) div T) cms) \<le> A
    \<and> poolBalance (providers s' prov) = poolBalance (providers s prov)
          - sum_list (map (\<lambda>cm. (A * amount (pendingCompensations s cm)) div T) cms)
    \<and> token_log s' = token_log s @
          map (\<lambda>cm. Transfer (client (claims s cm)) ((A * amount (pendingCompensations s cm)) div T))
            (filter (\<lambda>cm. (A * amount (pendingCompensations s cm)) div T > 0) cms)
    \<and> (\<forall>cms'. distinct cms' \<and> set cms' = set cms \<longrightarrow>
          (\<exists>s''. processProportionalCompensations e prov
                    (s\<lparr>providerPendingCompensations :=
                         (providerPendingCompensations s)(prov := cms')\<rparr>) = Inr s''
             \<and> claims s'' = claims s' \<and> pendingCompensations s'' = pendingCompensations s'
             \<and> providers s'' = providers s'
             \<and> totalProviderPools s'' = totalProviderPools s'
             \<and> totalPendingCompensations s'' = totalPendingCompensations s'))"
proof -
  let ?r = "\<lambda>cm. amount (pendingCompensations s cm)"
  let ?pay = "\<lambda>cm. (A * ?r cm) div T"
  from assms(6,7) have Tpos: "0 < T" and AT: "A \<le> T" by simp_all
  note below = proportional_below [OF AT Tpos]
  have tok: "\<forall>cm\<in>set cms. usdc_transfer e (client (claims s cm)) (proportional A T (?r cm))"
    using assms(13) by (simp add: below)
  note p = process_unsettled [OF assms(1-6) Tpos assms(8-12) tok]
  note f = processed_fields [OF assms(1,2) p(2) [symmetric]]
  have sh: "\<forall>cm\<in>set cms. shareOf A T s cm = ?pay cm"
    using p(3) by (simp add: below)
  have m: "map (shareOf A T s) cms = map ?pay cms"
    using sh by simp
  have fl: "filter (\<lambda>cm. shareOf A T s cm > 0) cms = filter (\<lambda>cm. ?pay cm > 0) cms"
    using sh by (intro filter_cong refl) simp
  have c1: "\<forall>cm\<in>set cms. min (?r cm) (?pay cm) = ?pay cm
          \<and> amount (pendingCompensations (processed prov s) cm) = ?r cm - ?pay cm
          \<and> paidAmount (claims (processed prov s) cm) = paidAmount (claims s cm) + ?pay cm
          \<and> pendingAmount (claims (processed prov s) cm) = pendingAmount (claims s cm) - ?pay cm"
  proof
    fix cm assume c: "cm \<in> set cms"
    with sh have sh: "shareOf A T s cm = ?pay cm" by simp
    have "?pay cm \<le> ?r cm"
      using proportional_le(1) [of A T "?r cm"] by (simp add: below)
    then have "min (?r cm) (?pay cm) = ?pay cm" by simp
    then show "min (?r cm) (?pay cm) = ?pay cm
          \<and> amount (pendingCompensations (processed prov s) cm) = ?r cm - ?pay cm
          \<and> paidAmount (claims (processed prov s) cm) = paidAmount (claims s cm) + ?pay cm
          \<and> pendingAmount (claims (processed prov s) cm) = pendingAmount (claims s cm) - ?pay cm"
      using c sh by (simp add: f(1,2))
  qed
  have c2: "sum_list (map ?pay cms) \<le> A"
    using p(4) unfolding m .
  have c3: "poolBalance (providers (processed prov s) prov)
      = poolBalance (providers s prov) - sum_list (map ?pay cms)"
    by (simp add: f(3) m)
  have c4: "token_log (processed prov s) = token_log s @
          map (\<lambda>cm. Transfer (client (claims s cm)) (?pay cm)) (filter (\<lambda>cm. ?pay cm > 0) cms)"
  proof -
    have "map (\<lambda>cm. Transfer (client (claims s cm)) (shareOf A T s cm))
            (filter (\<lambda>cm. ?pay cm > 0) cms)
        = map (\<lambda>cm. Transfer (client (claims s cm)) (?pay cm)) (filter (\<lambda>cm. ?pay cm > 0) cms)"
      using sh by (intro map_cong refl) simp
    then show ?thesis
      by (simp add: f(6) fl)
  qed
  have c5: "\<forall>cms'. distinct cms' \<and> set cms' = set cms \<longrightarrow>
          (\<exists>s''. processProportionalCompensations e prov
                    (s\<lparr>providerPendingCompensations :=
                         (providerPendingCompensations s)(prov := cms')\<rparr>) = Inr s''
             \<and> claims s'' = claims (processed prov s)
             \<and> pendingCompensations s'' = pendingCompensations (processed prov s)
             \<and> providers s'' = providers (processed prov s)
             \<and> totalProviderPools s'' = totalProviderPools (processed prov s)
             \<and> totalPendingCompensations s'' = totalPendingCompensations (processed prov s))"
  proof (intro allI impI)
    fix cms' assume "distinct cms' \<and> set cms' = set cms"
    then have d': "distinct cms'" and st: "set cms' = set cms" by simp_all
    let ?s2 = "s\<lparr>providerPendingCompensations := (providerPendingCompensations s)(prov := cms')\<rparr>"
    have T': "T = sum_list (map (\<lambda>cm. amount (pendingCompensations ?s2 cm)) cms')"
      using assms(3) sum_list_same_set [OF assms(4) d' st, of ?r] by simp
    have q: "cms' = providerPendingCompensations ?s2 prov" by simp
    have a: "A = poolBalance (providers ?s2 prov) - totalLocked (providers ?s2 prov)"
      using assms(2) by simp
    have p2: "processProportionalCompensations e prov ?s2 = Inr (processed prov ?s2)"
      and sv2: "sumValid ?s2 cms' = T"
      using assms(5,6,8-12) Tpos tok
      by (intro process_unsettled [OF q a T' d']; simp add: st)+
    note f2 = processed_fields [OF q a sv2 [symmetric]]
    have "shareOf A T ?s2 = shareOf A T s"
      by (rule ext) (rule shareOf_queue_update)
    then have sums: "sum_list (map (shareOf A T ?s2) cms') = sum_list (map (shareOf A T s) cms)"
      using sum_list_same_set [OF assms(4) d' st, of "shareOf A T s"]
      by simp
    show "\<exists>s''. processProportionalCompensations e prov ?s2 = Inr s''
             \<and> claims s'' = claims (processed prov s)
             \<and> pendingCompensations s'' = pendingCompensations (processed prov s)
             \<and> providers s'' = providers (processed prov s)
             \<and> totalProviderPools s'' = totalProviderPools (processed prov s)
             \<and> totalPendingCompensations s'' = totalPendingCompensations (processed prov s)"
      unfolding p2
      by (simp add: f2(1-5) f(1-5) sums shareOf_queue_update st cong: if_cong)
  qed
  from p(1) c1 c2 c3 c4 c5 show ?thesis
    by blast
qed


theorem C4_proportional_shares_witness:
  "case run [(callAt 5 100, RegisterOrReactivate 10000000),
             (callAt 2 200, InitiateClaim 7 5 10000000 NOT_DELIVERED),
             (callAt 3 210, InitiateClaim 8 5 4000000 NOT_DELIVERED),
             (callAt 4 220, InitiateClaim 9 5 4000000 SERVICE_TIMEOUT),
             (callAt 6 230, InitiateClaim 10 5 4000000 PARTIAL_DELIVERY)] (init 9) of
     Inl err \<Rightarrow> False
   | Inr s \<Rightarrow>
      (case processProportionalCompensations (callAt 5 300) 5
              (s\<lparr>providers := (providers s)(5 := (providers s 5)\<lparr>poolBalance := 20000000\<rparr>),
                 totalProviderPools := 20000000\<rparr>) of
         Inl err \<Rightarrow> False
       | Inr s' \<Rightarrow>
           providerPendingCompensations s 5 = [8, 9, 10]
           \<and> paidAmount (claims s' 8) = 3333333 \<and> pendingAmount (claims s' 8) = 666667
           \<and> paidAmount (claims s' 9) = 3333333 \<and> pendingAmount (claims s' 9) = 666667
           \<and> paidAmount (claims s' 10) = 3333333 \<and> pendingAmount (claims s' 10) = 666667
           \<and> amount (pendingCompensations s' 8) = 666667
           \<and> poolBalance (providers s' 5) = 10000001)"
proof -
  obtain s where r: "run [(callAt 5 100, RegisterOrReactivate 10000000),
             (callAt 2 200, InitiateClaim 7 5 10000000 NOT_DELIVERED),
             (callAt 3 210, InitiateClaim 8 5 4000000 NOT_DELIVERED),
             (callAt 4 220, InitiateClaim 9 5 4000000 SERVICE_TIMEOUT),
             (callAt 6 230, InitiateClaim 10 5 4000000 PARTIAL_DELIVERY)] (init 9) = Inr s"
    by (simp add: eval_defs)
  have "case run [(callAt 5 100, RegisterOrReactivate 10000000),
             (callAt 2 200, InitiateClaim 7 5 10000000 NOT_DELIVERED),
             (callAt 3 210, InitiateClaim 8 5 4000000 NOT_DELIVERED),
             (callAt 4 220, InitiateClaim 9 5 4000000 SERVICE_TIMEOUT),
             (callAt 6 230, InitiateClaim 10 5 4000000 PARTIAL_DELIVERY)] (init 9) of
     Inl err \<Rightarrow> True
   | Inr s \<Rightarrow> providerPendingCompensations s 5 = [8, 9, 10]
      \<and> totalLocked (providers s 5) = 10000000
      \<and> amount (pendingCompensations s 8) = 4000000 \<and> \<not> isPaid (pendingCompensations s 8)
      \<and> amount (pendingCompensations s 9) = 4000000 \<and> \<not> isPaid (pendingCompensations s 9)
      \<and> amount (pendingCompensations s 10) = 4000000 \<and> \<not> isPaid (pendingCompensations s 10)
      \<and> paidAmount (claims s 8) = 0 \<and> pendingAmount (claims s 8) = 4000000
      \<and> paidAmount (claims s 9) = 0 \<and> pendingAmount (claims s 9) = 4000000
      \<and> paidAmount (claims s 10) = 0 \<and> pendingAmount (claims s 10) = 4000000
      \<and> totalPendingCompensations s = 12000000"
    by (simp add: eval_defs)
  then have v: "providerPendingCompensations s 5 = [8, 9, 10]"
      "totalLocked (providers s 5) = 10000000"
      "amount (pendingCompensations s 8) = 4000000" "\<not> isPaid (pendingCompensations s 8)"
      "amount (pendingCompensations s 9) = 4000000" "\<not> isPaid (pendingCompensations s 9)"
      "amount (pendingCompensations s 10) = 4000000" "\<not> isPaid (pendingCompensations s 10)"
      "paidAmount (claims s 8) = 0" "pendingAmount (claims s 8) = 4000000"
      "paidAmount (claims s 9) = 0" "pendingAmount (claims s 9) = 4000000"
      "paidAmount (claims s 10) = 0" "pendingAmount (claims s 10) = 4000000"
      "totalPendingCompensations s = 12000000"
    unfolding r by simp_all
  let ?s = "s\<lparr>providers := (providers s)(5 := (providers s 5)\<lparr>poolBalance := 20000000\<rparr>),
                 totalProviderPools := 20000000\<rparr>"
  have tok: "\<And>a x. usdc_transfer (callAt 5 300) a x"
    by (simp add: callAt_def)
  from C4_proportional_shares [of "[8, 9, 10]" ?s 5 10000000 12000000 "callAt 5 300"]
  obtain s' where x: "processProportionalCompensations (callAt 5 300) 5 ?s = Inr s'"
    and c: "\<forall>cm\<in>set [8, 9, 10].
          min (amount (pendingCompensations ?s cm)) ((10000000 * amount (pendingCompensations ?s cm)) div 12000000)
            = (10000000 * amount (pendingCompensations ?s cm)) div 12000000
          \<and> amount (pendingCompensations s' cm)
            = amount (pendingCompensations ?s cm) - (10000000 * amount (pendingCompensations ?s cm)) div 12000000
          \<and> paidAmount (claims s' cm)
            = paidAmount (claims ?s cm) + (10000000 * amount (pendingCompensations ?s cm)) div 12000000
          \<and> pendingAmount (claims s' cm)
            = pendingAmount (claims ?s cm) - (10000000 * amount (pendingCompensations ?s cm)) div 12000000"
    and pool: "poolBalance (providers s' 5) = poolBalance (providers ?s 5)
          - sum_list (map (\<lambda>cm. (10000000 * amount (pendingCompensations ?s cm)) div 12000000) [8, 9, 10])"
    by (auto simp: v tok MAX_UINT256_def)
  from c pool show ?thesis
    unfolding r by (simp add: x v)
qed







text \<open>
  \<^bold>\<open>C7.\<close> The specification says that \<open>executeClaim\<close> credits half the penalty to
  \<open>emergencyPool\<close> and the other half plus the platform fee to
  \<open>platformInsuranceFund\<close>. The code credits \<^verbatim>\<open>penaltyAmount / 2\<close>, rounded down, to
  both. A claim of 0.100010 has a penalty of 0.010001 and a fee of 0.001000: 0.111011
  leaves the provider's pool, \<open>emergencyPool\<close> receives 0.005000 and
  \<open>platformInsuranceFund\<close> 0.006000, and not the other half 0.005001 plus the fee.
\<close>

theorem C7_odd_penalty_loses_a_unit:
  "case run [(callAt 5 100, RegisterOrReactivate 10000000),
             (callAt 2 200, InitiateClaim 7 5 100010 NOT_DELIVERED)] (init 9) of
     Inl err \<Rightarrow> False
   | Inr s \<Rightarrow>
      (case executeClaim (callAt 3 300) 7 s of
         Inl err \<Rightarrow> False
       | Inr s' \<Rightarrow>
           paidAmount (claims s 7) = 100010
           \<and> (100010 * PENALTY_RATE) div 10000 = 10001
           \<and> (100010 * PLATFORM_FEE_RATE) div 10000 = 1000
           \<and> poolBalance (providers s 5) = 10000000
           \<and> poolBalance (providers s' 5) = 10000000 - (100010 + 10001 + 1000)
           \<and> emergencyPool s = 0 \<and> platformInsuranceFund s = 0
           \<and> emergencyPool s' = 5000
           \<and> platformInsuranceFund s' = 5000 + 1000
           \<and> platformInsuranceFund s' \<noteq> (10001 - 5000) + 1000
           \<and> token_log s' = token_log s @ [Transfer 2 100010])"
  by (simp add: eval_defs)

text \<open>
  \<^bold>\<open>C7, amended.\<close> A successful \<open>executeClaim\<close> on a claim whose scheduled amount is
  \<open>P > 0\<close>. With \<open>penalty = P * 1000 div 10000\<close>, \<open>fee = P * 100 div 10000\<close> and
  \<open>required = P + penalty + fee\<close>: the provider's pool gives \<open>fromProvider\<close>, the smaller
  of \<open>required\<close> and its balance; the shortfall is taken from \<open>emergencyPool\<close> as far as
  that reaches (\<open>fromEmergency\<close>), and the rest (\<open>fromPlatform\<close>) from
  \<open>platformInsuranceFund\<close>, which holds that much. Then \<open>penalty div 2\<close> is credited to
  \<open>emergencyPool\<close>, and \<open>penalty div 2 + fee\<close> to \<open>platformInsuranceFund\<close>: the two funds
  together receive the penalty and the fee less \<open>penalty mod 2\<close>, the unit of an odd
  penalty that is credited to neither. Exactly \<open>P\<close> is transferred to the client. The
  status becomes \<open>EXECUTED\<close> and \<open>successfulServices\<close> grows by one when nothing is
  pending; otherwise the status is \<open>PARTIAL\<close> and the counter stays.
\<close>

theorem C7_executeClaim_settlement:
  assumes "executeClaim e cm s = Inr s'"
    and "P = paidAmount (claims s cm)" and "0 < P"
    and "penalty = (P * PENALTY_RATE) div 10000"
    and "fee = (P * PLATFORM_FEE_RATE) div 10000"
    and "required = P + penalty + fee"
    and "prov = provider (claims s cm)"
    and "fromProvider = min required (poolBalance (providers s prov))"
    and "fromEmergency = min (required - fromProvider) (emergencyPool s)"
    and "fromPlatform = required - fromProvider - fromEmergency"
  shows "poolBalance (providers s' prov) = poolBalance (providers s prov) - fromProvider
    \<and> fromPlatform \<le> platformInsuranceFund s
    \<and> emergencyPool s' = emergencyPool s - fromEmergency + penalty div 2
    \<and> platformInsuranceFund s' = platformInsuranceFund s - fromPlatform + (penalty div 2 + fee)
    \<and> emergencyPool s' + platformInsuranceFund s' + fromEmergency + fromPlatform + penalty mod 2
        = emergencyPool s + platformInsuranceFund s + penalty + fee
    \<and> token_log s' = token_log s @ [Transfer (client (claims s cm)) P]
    \<and> status (claims s' cm) = (if pendingAmount (claims s cm) = 0 then EXECUTED else PARTIAL)
    \<and> successfulServices (providers s' prov) =
        successfulServices (providers s prov) + (if pendingAmount (claims s cm) = 0 then 1 else 0)
    \<and> paidAmount (claims s' cm) = P
    \<and> pendingAmount (claims s' cm) = pendingAmount (claims s cm)"
proof -
  note r = executeClaim_Inr [OF assms(1)]
  from assms(2,3) have pos: "0 < paidAmount (claims s cm)" by simp
  with r(4) have s': "s' = finished cm s (settled cm s)" by simp
  have req: "requiredFor (paidAmount (claims s cm)) = required"
    using assms(2,4,5,6) by (simp add: requiredFor_def penaltyOf_def feeOf_def)
  have fp: "fromProviderOf s cm = fromProvider"
    using assms(7,8) req by (simp add: fromProviderOf_def min_def)
  have sf: "shortfallOf s cm = required - fromProvider"
    using req fp by (simp add: shortfallOf_def)
  from r(5) pos sf have plat: "required - fromProvider - emergencyPool s \<le> platformInsuranceFund s"
    by simp
  have pen: "penaltyOf (paidAmount (claims s cm)) = penalty"
    and fee: "feeOf (paidAmount (claims s cm)) = fee"
    using assms(2,4,5) by (simp_all add: penaltyOf_def feeOf_def)
  have le: "fromProvider \<le> required"
    using assms(8) by simp
  have c1: "poolBalance (providers s' prov) = poolBalance (providers s prov) - fromProvider"
    unfolding s' using assms(7) fp
    by (simp add: finished_def settled_def providerAfterPay_def)
  have c2: "fromPlatform \<le> platformInsuranceFund s"
    using plat assms(9,10) by (simp add: min_def split: if_splits)
  have e1: "emergencyAfterDraw s cm = emergencyPool s - fromEmergency"
    unfolding emergencyAfterDraw_def fp sf req assms(9) using le by (simp add: min_def)
  have p1: "platformAfterDraw s cm = platformInsuranceFund s - fromPlatform"
    unfolding platformAfterDraw_def fp sf req assms(9,10) using le by (simp add: min_def)
  have c3: "emergencyPool s' = emergencyPool s - fromEmergency + penalty div 2"
    unfolding s' by (simp add: finished_def settled_def e1 pen)
  have c4: "platformInsuranceFund s' = platformInsuranceFund s - fromPlatform + (penalty div 2 + fee)"
    unfolding s' by (simp add: finished_def settled_def p1 pen fee)
  have fe: "fromEmergency \<le> emergencyPool s"
    using assms(9) by simp
  have "penalty div 2 + penalty div 2 + penalty mod 2 = penalty"
    by arith
  with c2 c3 c4 fe have c10:
    "emergencyPool s' + platformInsuranceFund s' + fromEmergency + fromPlatform + penalty mod 2
        = emergencyPool s + platformInsuranceFund s + penalty + fee"
    by simp
  have c5: "token_log s' = token_log s @ [Transfer (client (claims s cm)) P]"
    unfolding s' using assms(2) by (simp add: finished_def settled_def)
  have c6: "status (claims s' cm) = (if pendingAmount (claims s cm) = 0 then EXECUTED else PARTIAL)"
    and c8: "paidAmount (claims s' cm) = P"
    and c9: "pendingAmount (claims s' cm) = pendingAmount (claims s cm)"
    unfolding s' using assms(2) by (simp_all add: finished_def settled_def)
  have c7: "successfulServices (providers s' prov) =
        successfulServices (providers s prov) + (if pendingAmount (claims s cm) = 0 then 1 else 0)"
    unfolding s' using assms(7)
    by (simp add: finished_def settled_def providerAfterPay_def)
  from c1 c2 c3 c4 c5 c6 c7 c8 c9 c10 show ?thesis by blast
qed

theorem C7_executeClaim_settlement_witness:
  "case run [(callAt 9 50, FundEmergencyPool 1000000),
             (callAt 9 60, FundPlatformInsurance 500000),
             (callAt 5 100, RegisterOrReactivate 10000000),
             (callAt 2 200, InitiateClaim 7 5 10000010 NOT_DELIVERED)] (init 9) of
     Inl err \<Rightarrow> False
   | Inr s \<Rightarrow>
      (case executeClaim (callAt 3 600) 7 s of
         Inl err \<Rightarrow> False
       | Inr s' \<Rightarrow>
           poolBalance (providers s 5) = 10000000 \<and> paidAmount (claims s 7) = 10000010
           \<and> emergencyPool s = 1000000 \<and> platformInsuranceFund s = 500000
           \<and> poolBalance (providers s' 5) = 0
           \<and> emergencyPool s' = 500000 \<and> platformInsuranceFund s' = 999989
           \<and> emergencyPool s' + platformInsuranceFund s' + 1000000 + 100011 + 1
               = emergencyPool s + platformInsuranceFund s + 1000001 + 100000
           \<and> token_log s' = token_log s @ [Transfer 2 10000010]
           \<and> status (claims s' 7) = EXECUTED
           \<and> successfulServices (providers s' 5) = successfulServices (providers s 5) + 1)"
proof -
  obtain s where r: "run [(callAt 9 50, FundEmergencyPool 1000000),
             (callAt 9 60, FundPlatformInsurance 500000),
             (callAt 5 100, RegisterOrReactivate 10000000),
             (callAt 2 200, InitiateClaim 7 5 10000010 NOT_DELIVERED)] (init 9) = Inr s"
    by (simp add: eval_defs fundEmergencyPool_def fundPlatformInsurance_def)
  obtain s' where r2: "run ([(callAt 9 50, FundEmergencyPool 1000000),
             (callAt 9 60, FundPlatformInsurance 500000),
             (callAt 5 100, RegisterOrReactivate 10000000),
             (callAt 2 200, InitiateClaim 7 5 10000010 NOT_DELIVERED)]
             @ [(callAt 3 600, ExecuteClaim 7)]) (init 9) = Inr s'"
    by (simp add: eval_defs fundEmergencyPool_def fundPlatformInsurance_def)
  from run_then [OF r r2] have x: "executeClaim (callAt 3 600) 7 s = Inr s'" by simp
  have "case run [(callAt 9 50, FundEmergencyPool 1000000),
             (callAt 9 60, FundPlatformInsurance 500000),
             (callAt 5 100, RegisterOrReactivate 10000000),
             (callAt 2 200, InitiateClaim 7 5 10000010 NOT_DELIVERED)] (init 9) of
     Inl err \<Rightarrow> True
   | Inr s \<Rightarrow> paidAmount (claims s 7) = 10000010 \<and> pendingAmount (claims s 7) = 0
      \<and> provider (claims s 7) = 5 \<and> client (claims s 7) = 2
      \<and> poolBalance (providers s 5) = 10000000
      \<and> emergencyPool s = 1000000 \<and> platformInsuranceFund s = 500000"
    by (simp add: eval_defs fundEmergencyPool_def fundPlatformInsurance_def)
  then have v: "paidAmount (claims s 7) = 10000010" "pendingAmount (claims s 7) = 0"
      "provider (claims s 7) = 5" "client (claims s 7) = 2"
      "poolBalance (providers s 5) = 10000000"
      "emergencyPool s = 1000000" "platformInsuranceFund s = 500000"
    unfolding r by simp_all
  have "poolBalance (providers s' 5) = poolBalance (providers s 5) - 10000000
    \<and> (100011::nat) \<le> platformInsuranceFund s
    \<and> emergencyPool s' = emergencyPool s - 1000000 + 1000001 div 2
    \<and> platformInsuranceFund s' = platformInsuranceFund s - 100011 + (1000001 div 2 + 100000)
    \<and> emergencyPool s' + platformInsuranceFund s' + 1000000 + 100011 + 1000001 mod 2
        = emergencyPool s + platformInsuranceFund s + 1000001 + 100000
    \<and> token_log s' = token_log s @ [Transfer (client (claims s 7)) 10000010]
    \<and> status (claims s' 7) = (if pendingAmount (claims s 7) = 0 then EXECUTED else PARTIAL)
    \<and> successfulServices (providers s' 5) =
        successfulServices (providers s 5) + (if pendingAmount (claims s 7) = 0 then 1 else 0)
    \<and> paidAmount (claims s' 7) = 10000010
    \<and> pendingAmount (claims s' 7) = pendingAmount (claims s 7)"
    by (rule C7_executeClaim_settlement [OF x, where required = 11100011])
       (simp_all add: v PENALTY_RATE_def PLATFORM_FEE_RATE_def)
  then show ?thesis
    unfolding r by (simp add: x v)
qed

text \<open>
  \<^bold>\<open>C8.\<close> A dispute by the provider, within the window, of a claim whose lock was
  capped at initiation. The provider holds 10.00; a first claim of 5.00 locks 5.55; a
  second claim of 5.00 finds 4.45 available, is scheduled for 4.45 and locks 4.45 (the
  required 4.9395 capped at what is available). Disputing the second claim sets its
  status to \<open>DISPUTED\<close>, moves no funds and keeps the compensation entry, but it lowers
  \<open>totalLocked\<close> by 4.9395, recomputed from \<open>paidAmount\<close>, and not by the 4.45 locked
  for this claim: 0.4895 of the first claim's lock is released with it.
\<close>

theorem C8_dispute_releases_more_than_locked:
  "case run [(callAt 5 100, RegisterOrReactivate 10000000),
             (callAt 2 200, InitiateClaim 7 5 5000000 NOT_DELIVERED)] (init 9) of
     Inl err \<Rightarrow> False
   | Inr s0 \<Rightarrow>
      (case initiateClaim (callAt 3 200) 8 5 5000000 NOT_DELIVERED s0 of
         Inl err \<Rightarrow> False
       | Inr s \<Rightarrow>
          (case disputeClaim (callAt 5 250) 8 ''delivered'' s of
             Inl err \<Rightarrow> False
           | Inr s' \<Rightarrow>
               totalLocked (providers s0 5) = 5550000
               \<and> totalLocked (providers s 5) = totalLocked (providers s0 5) + 4450000
               \<and> totalLocked (providers s' 5) = totalLocked (providers s 5) - 4939500
               \<and> totalLocked (providers s' 5) < totalLocked (providers s0 5)
               \<and> status (claims s' 8) = DISPUTED
               \<and> token_log s' = token_log s
               \<and> poolBalance (providers s' 5) = poolBalance (providers s 5)
               \<and> emergencyPool s' = emergencyPool s
               \<and> platformInsuranceFund s' = platformInsuranceFund s
               \<and> paidAmount (claims s' 8) = 4450000 \<and> pendingAmount (claims s' 8) = 550000
               \<and> providerPendingCompensations s' 5 = [8]
               \<and> pendingCompensations s' 8 = pendingCompensations s 8))"
  by (simp add: eval_defs)

text \<open>
  \<^bold>\<open>C9.\<close> The specification says that \<open>depositAdditional\<close> rejects an amount below
  \<open>MIN_POOL_BALANCE\<close>. It does not: an active provider deposits 5.00, half the floor.
\<close>

theorem C9_deposit_below_floor_accepted:
  "case run [(callAt 5 100, RegisterOrReactivate 10000000)] (init 9) of
     Inl err \<Rightarrow> False
   | Inr s \<Rightarrow>
       isActive (providers s 5) \<and> (5000000::nat) < MIN_POOL_BALANCE
       \<and> (case depositAdditional (callAt 5 200) 5000000 s of
             Inl err \<Rightarrow> False
           | Inr s' \<Rightarrow> poolBalance (providers s' 5) = 15000000
               \<and> token_log s' = token_log s @ [TransferFrom 5 5000000])"
  by (simp add: eval_defs)

text \<open>
  \<^bold>\<open>C9, amended.\<close> \<open>depositAdditional\<close> has no floor. For an active provider it
  fails with \<^verbatim>\<open>Exceeds maximum\<close> when the balance after the deposit would exceed
  \<open>MAX_POOL_BALANCE\<close>; otherwise, when the token transfer succeeds, it credits any
  amount, also one below \<open>MIN_POOL_BALANCE\<close>, and returns that storage, or what
  the distribution makes of it when the provider's queue is not empty. The
  floor is checked by \<open>registerOrReactivate\<close> alone.
\<close>

theorem C9_deposit_checks:
  assumes "isActive (providers s (msg_sender e))"
    and "pool = poolBalance (providers s (msg_sender e))"
    and "pool + amt \<le> MAX_UINT256" and "totalProviderPools s + amt \<le> MAX_UINT256"
    and "s1 = s\<lparr>
           providers := (providers s)(msg_sender e :=
             (providers s (msg_sender e))\<lparr>poolBalance := pool + amt\<rparr>),
           totalProviderPools := totalProviderPools s + amt,
           token_log := token_log s @ [TransferFrom (msg_sender e) amt]\<rparr>"
  shows "(pool + amt > MAX_POOL_BALANCE \<longrightarrow>
            depositAdditional e amt s = Inl (Revert ''Exceeds maximum''))
    \<and> (pool + amt \<le> MAX_POOL_BALANCE \<and> usdc_transferFrom e (msg_sender e) amt \<longrightarrow>
            depositAdditional e amt s =
              (if providerPendingCompensations s (msg_sender e) = [] then Inr s1
               else processProportionalCompensations e (msg_sender e) s1))
    \<and> (amt < MIN_POOL_BALANCE \<longrightarrow>
            registerOrReactivate e amt s = Inl (Revert ''Insufficient initial deposit''))"
  using assms
  by (simp add: depositAdditional_def registerOrReactivate_def Let_def)

theorem C9_deposit_checks_witness:
  "case run [(callAt 5 100, RegisterOrReactivate 10000000)] (init 9) of
     Inl err \<Rightarrow> False
   | Inr s \<Rightarrow>
       depositAdditional (callAt 5 200) 5000000 s =
         Inr (s\<lparr>providers := (providers s)(5 := (providers s 5)\<lparr>poolBalance := 15000000\<rparr>),
               totalProviderPools := 15000000,
               token_log := token_log s @ [TransferFrom 5 5000000]\<rparr>)
       \<and> registerOrReactivate (callAt 5 200) 5000000 s = Inl (Revert ''Insufficient initial deposit'')"
proof -
  obtain s where r: "run [(callAt 5 100, RegisterOrReactivate 10000000)] (init 9) = Inr s"
    by (simp add: eval_defs)
  have "case run [(callAt 5 100, RegisterOrReactivate 10000000)] (init 9) of
     Inl err \<Rightarrow> True
   | Inr s \<Rightarrow> isActive (providers s 5) \<and> poolBalance (providers s 5) = 10000000
       \<and> totalProviderPools s = 10000000 \<and> providerPendingCompensations s 5 = []"
    by (simp add: eval_defs)
  then have v: "isActive (providers s 5)" "poolBalance (providers s 5) = 10000000"
      "totalProviderPools s = 10000000" "providerPendingCompensations s 5 = []"
    unfolding r by simp_all
  have m: "msg_sender (callAt 5 200) = 5" "usdc_transferFrom (callAt 5 200) 5 5000000"
    by (simp_all add: callAt_def)
  from C9_deposit_checks [of s "callAt 5 200" 10000000 5000000, OF _ _ _ _ refl]
  show ?thesis
    unfolding r
    by (simp add: v m MAX_UINT256_def MAX_POOL_BALANCE_def MIN_POOL_BALANCE_def)
qed

text \<open>
  \<^bold>\<open>C10.\<close> A second \<open>executeClaim\<close> on a claim that has been paid out. When nothing
  is pending, the first call sets the status to \<open>EXECUTED\<close> and a second call is rejected.
  When a remainder is pending, the first call leaves the status \<open>PARTIAL\<close>, which
  \<open>executeClaim\<close> accepts: a second call succeeds and transfers the scheduled amount
  once more. Here the provider holds 10.00, a claim of 9.00 locks 9.99, and a claim of
  1.00 is scheduled for the remaining 0.01; that claim is executed twice.
\<close>

theorem C10_partial_claim_paid_twice:
  "case run [(callAt 5 100, RegisterOrReactivate 10000000),
             (callAt 2 200, InitiateClaim 7 5 9000000 NOT_DELIVERED),
             (callAt 3 200, InitiateClaim 8 5 1000000 NOT_DELIVERED)] (init 9) of
     Inl err \<Rightarrow> False
   | Inr s \<Rightarrow>
      (case executeClaim (callAt 3 300) 8 s of
         Inl err \<Rightarrow> False
       | Inr s1 \<Rightarrow>
          (case executeClaim (callAt 3 301) 8 s1 of
             Inl err \<Rightarrow> False
           | Inr s2 \<Rightarrow>
               paidAmount (claims s 8) = 10000 \<and> pendingAmount (claims s 8) = 990000
               \<and> token_log s1 = token_log s @ [Transfer 3 10000]
               \<and> status (claims s1 8) = PARTIAL
               \<and> token_log s2 = token_log s1 @ [Transfer 3 10000]
               \<and> poolBalance (providers s 5) = 10000000
               \<and> poolBalance (providers s1 5) = 9988900
               \<and> poolBalance (providers s2 5) = 9977800
               \<and> status (claims s2 8) = PARTIAL))"
  by (simp add: eval_defs)

end
